theory Spec2Isabelle
  imports Main "HOL-Library.AList"
begin

section \<open>The catalog as the indexer reads it\<close>

text \<open>
  The indexer (\<^verbatim>\<open>main.py\<close>) reads the AniDB dump through \<^verbatim>\<open>xml.dom.minidom\<close>. Of every
  \<^verbatim>\<open>title\<close> element it reads \<^verbatim>\<open>getAttribute("type")\<close>, \<^verbatim>\<open>getAttribute("xml:lang")\<close>
  and \<^verbatim>\<open>firstChild.nodeValue\<close>; of every \<^verbatim>\<open>anime\<close> element it reads
  \<^verbatim>\<open>int(getAttribute("aid"))\<close> and its \<^verbatim>\<open>title\<close> descendants in document order.

  \<^item> \<open>first_child\<close> is \<open>None\<close> for an element without a child node (\<^verbatim>\<open>firstChild\<close> is
    \<^verbatim>\<open>None\<close>, so \<^verbatim>\<open>.nodeValue\<close> raises AttributeError), and otherwise the text of the
    first child, a text node in the dump.
  \<^item> \<open>ttype\<close> and \<open>xml_lang\<close> are the values \<^verbatim>\<open>getAttribute\<close> returns, the empty string for
    an attribute that is absent.
  \<^item> \<open>aid\<close> is the value of \<^verbatim>\<open>int(anime.getAttribute("aid"))\<close>, \<open>None\<close> where the builtin
    raises ValueError.
\<close>

record title_tag =
  ttype :: string
  xml_lang :: string
  first_child :: "string option"

record anime_tag =
  aid :: "int option"
  titles :: "title_tag list"

text \<open>The file \<^verbatim>\<open>anime-titles.xml\<close> as \<^verbatim>\<open>parse\<close> finds it.\<close>

datatype xml_file = FileNotFound | NotWellFormed | Dom "anime_tag list"

text \<open>
  A document is the Python \<^verbatim>\<open>dict\<close> sent to MeiliSearch: keys in insertion order, an
  assignment to an existing key replaces the value in place (\<^const>\<open>AList.update\<close>).
\<close>

datatype json_value = JInt int | JStr string

type_synonym document = "(string \<times> json_value) list"

datatype py_exception = StopIteration | AttributeError | ValueError | ExpatError

section \<open>Key slugifier\<close>

text \<open>
  Modelled from the spec: the body of \<^verbatim>\<open>slugify\<close> (package \<^verbatim>\<open>python-slugify\<close>, imported
  by \<^verbatim>\<open>main.py\<close>) is not part of the repository. Section 4.1 of the specification: the
  key is normalised to lowercase ASCII letters and digits, every other character
  (the underscores of the pattern included) is collapsed to a single separator, and
  there is no leading or trailing separator. So the key is the list of the maximal runs
  of letters and digits of the lowercased text, joined by the separator.
\<close>

definition lower_char :: "char \<Rightarrow> char" where
  "lower_char c =
     (case map_of (zip ''ABCDEFGHIJKLMNOPQRSTUVWXYZ'' ''abcdefghijklmnopqrstuvwxyz'') c of
        Some d \<Rightarrow> d
      | None \<Rightarrow> c)"

definition slug_alnum :: "char \<Rightarrow> bool" where
  "slug_alnum c \<longleftrightarrow> c \<in> set ''abcdefghijklmnopqrstuvwxyz0123456789''"

text \<open>The pieces between the characters that are not kept, the empty pieces included.\<close>

fun split_runs :: "string \<Rightarrow> string list" where
  "split_runs [] = [[]]"
| "split_runs (c # cs) =
     (if slug_alnum c
      then (case split_runs cs of [] \<Rightarrow> [[c]] | w # ws \<Rightarrow> (c # w) # ws)
      else [] # split_runs cs)"

definition slug_words :: "string \<Rightarrow> string list" where
  "slug_words text = filter (\<lambda>w. w \<noteq> []) (split_runs (map lower_char text))"

fun join_words :: "string \<Rightarrow> string list \<Rightarrow> string" where
  "join_words separator [] = []"
| "join_words separator [w] = w"
| "join_words separator (w # ws) = w @ separator @ join_words separator ws"

definition slugify :: "string \<Rightarrow> string \<Rightarrow> string" where
  "slugify text separator = join_words separator (slug_words text)"

text \<open>Python's \<^verbatim>\<open>str\<close> of a non-negative integer, as the f-string formats the index.\<close>

definition digit_char :: "nat \<Rightarrow> char" where
  "digit_char d = ''0123456789'' ! d"

fun py_str :: "nat \<Rightarrow> string" where
  "py_str n = (if n < 10 then [digit_char n] else py_str (n div 10) @ [digit_char (n mod 10)])"

declare py_str.simps [simp del]

text \<open>\<^verbatim>\<open>slugify(f"official_{language}", separator="_")\<close>\<close>

definition official_key :: "string \<Rightarrow> string" where
  "official_key language = slugify (''official_'' @ language) ''_''"

text \<open>\<^verbatim>\<open>slugify(f"short_{language}_{short_name_index}", separator="_")\<close>\<close>

definition short_key :: "string \<Rightarrow> nat \<Rightarrow> string" where
  "short_key language short_name_index =
     slugify (''short_'' @ language @ ''_'' @ py_str short_name_index) ''_''"

section \<open>Record normalizer: the body of the loop over the entries\<close>

text \<open>
  The inner loop over \<^verbatim>\<open>titles\<close> that collects \<^verbatim>\<open>short_names_list\<close> for one language;
  a matching title without a child node raises AttributeError.
\<close>

fun short_names_list :: "title_tag list \<Rightarrow> string \<Rightarrow> py_exception + string list" where
  "short_names_list [] language = Inr []"
| "short_names_list (title # rest) language =
     (if ttype title = ''short'' \<and> xml_lang title = language
      then (case first_child title of
              None \<Rightarrow> Inl AttributeError
            | Some short_name \<Rightarrow>
                (case short_names_list rest language of
                   Inl e \<Rightarrow> Inl e
                 | Inr names \<Rightarrow> Inr (short_name # names)))
      else short_names_list rest language)"

text \<open>\<^verbatim>\<open>for short_name_index, short_name in enumerate(short_names_list, start=1)\<close>\<close>

fun add_short_names :: "string \<Rightarrow> nat \<Rightarrow> string list \<Rightarrow> document \<Rightarrow> document" where
  "add_short_names language short_name_index [] data = data"
| "add_short_names language short_name_index (short_name # rest) data =
     add_short_names language (Suc short_name_index) rest
       (AList.update (short_key language short_name_index) (JStr short_name) data)"

text \<open>\<^verbatim>\<open>for official in officials\<close>, with the titles of the entry at hand.\<close>

fun add_officials :: "title_tag list \<Rightarrow> title_tag list \<Rightarrow> document \<Rightarrow> py_exception + document" where
  "add_officials all_titles [] data = Inr data"
| "add_officials all_titles (official # rest) data =
     (let language = xml_lang official in
      case first_child official of
        None \<Rightarrow> Inl AttributeError
      | Some official_name \<Rightarrow>
          (case short_names_list all_titles language of
             Inl e \<Rightarrow> Inl e
           | Inr names \<Rightarrow>
               add_officials all_titles rest
                 (add_short_names language 1 names
                    (AList.update (official_key language) (JStr official_name) data))))"

text \<open>
  Lines 104 to 145 of \<^verbatim>\<open>parse_and_index\<close>: \<^verbatim>\<open>next\<close> on the generator of the main titles
  raises StopIteration when there is none.
\<close>

definition normalize :: "anime_tag \<Rightarrow> py_exception + document" where
  "normalize anime =
     (case aid anime of
        None \<Rightarrow> Inl ValueError
      | Some anime_id \<Rightarrow>
          (case List.find (\<lambda>tag. ttype tag = ''main'') (titles anime) of
             None \<Rightarrow> Inl StopIteration
           | Some main \<Rightarrow>
               (let officials = filter (\<lambda>tag. ttype tag = ''official'') (titles anime) in
                case first_child main of
                  None \<Rightarrow> Inl AttributeError
                | Some main_name \<Rightarrow>
                    add_officials (titles anime) officials
                      [(''anime_id'', JInt anime_id), (''main'', JStr main_name)])))"

section \<open>The sink and the driver\<close>

text \<open>
  The MeiliSearch service is outside the repository: the model records the calls the
  indexer makes on the client, in order, and takes from the service what the code
  branches on: whether \<^verbatim>\<open>health\<close> answers, the uids \<^verbatim>\<open>get_indexes\<close> lists and whether
  \<^verbatim>\<open>add_documents\<close> accepts a batch.
\<close>

datatype sink_call =
    Health
  | GetIndexes
  | GetIndex string
  | CreateIndex string string
  | DeleteAllDocuments string
  | AddDocuments string "document list"

record meilisearch =
  healthy :: bool
  index_uids :: "string list"
  accepts :: "document list \<Rightarrow> bool"
  calls :: "sink_call list"

text \<open>
  The four \<^verbatim>\<open>sys.exit(message)\<close> sites; each prints its message and ends the process
  with status 1. An exception nobody catches ends it with a traceback and status 1.
\<close>

datatype exit_site = NoInstanceRunning string | FileNotFoundExit | NoAnimeFound | IndexingFailed

datatype outcome = Returned | SysExit exit_site | Uncaught py_exception

fun exit_status :: "outcome \<Rightarrow> nat" where
  "exit_status Returned = 0"
| "exit_status (SysExit site) = 1"
| "exit_status (Uncaught e) = 1"

definition create_connection :: "string \<Rightarrow> meilisearch \<Rightarrow> exit_site option \<times> meilisearch" where
  "create_connection url client =
     (let asked = client\<lparr>calls := calls client @ [Health]\<rparr> in
      if healthy client then (None, asked) else (Some (NoInstanceRunning url), asked))"

definition get_or_create_index :: "meilisearch \<Rightarrow> string \<Rightarrow> string \<Rightarrow> meilisearch" where
  "get_or_create_index client uid name =
     (let listed = client\<lparr>calls := calls client @ [GetIndexes]\<rparr>;
          exist = List.find (\<lambda>index. index = uid) (index_uids client);
          opened = (if exist \<noteq> None
                    then listed\<lparr>calls := calls listed @ [GetIndex uid]\<rparr>
                    else listed\<lparr>calls := calls listed @ [CreateIndex uid name]\<rparr>)
      in opened\<lparr>calls := calls opened @ [DeleteAllDocuments uid]\<rparr>)"

text \<open>The index handle is the client together with the uid of the index.\<close>

definition add_documents ::
  "string \<Rightarrow> meilisearch \<Rightarrow> document list \<Rightarrow> exit_site option \<times> meilisearch" where
  "add_documents uid meilisearch_index documents =
     (let asked = meilisearch_index\<lparr>calls := calls meilisearch_index @ [AddDocuments uid documents]\<rparr>
      in if accepts meilisearch_index documents then (None, asked) else (Some IndexingFailed, asked))"

text \<open>
  The loop of \<^verbatim>\<open>parse_and_index\<close> over \<^verbatim>\<open>enumerate(animes, start=1)\<close>: the state is the
  sink and \<^verbatim>\<open>data_queue\<close>. The result is the outcome, the sink and the queue left.
  The progress line printed and the pause of one second after a full batch change
  neither, and are left out.
\<close>

fun index_loop ::
  "string \<Rightarrow> nat \<Rightarrow> anime_tag list \<Rightarrow> meilisearch \<Rightarrow> document list
     \<Rightarrow> outcome \<times> meilisearch \<times> document list" where
  "index_loop uid index [] meilisearch_index data_queue =
     (Returned, meilisearch_index, data_queue)"
| "index_loop uid index (anime # rest) meilisearch_index data_queue =
     (case normalize anime of
        Inl e \<Rightarrow> (Uncaught e, meilisearch_index, data_queue)
      | Inr data \<Rightarrow>
          (let data_queue' = data_queue @ [data] in
           if index mod 500 = 0
           then (case add_documents uid meilisearch_index data_queue' of
                   (Some site, asked) \<Rightarrow> (SysExit site, asked, data_queue')
                 | (None, asked) \<Rightarrow> index_loop uid (Suc index) rest asked [])
           else index_loop uid (Suc index) rest meilisearch_index data_queue'))"

text \<open>
  \<^verbatim>\<open>parse_and_index\<close>: the file is opened first, an empty catalog ends the run, and
  after the loop the queue left is sent, whatever it holds.
\<close>

definition parse_and_index :: "xml_file \<Rightarrow> string \<Rightarrow> meilisearch \<Rightarrow> outcome \<times> meilisearch" where
  "parse_and_index file uid meilisearch_index =
     (case file of
        FileNotFound \<Rightarrow> (SysExit FileNotFoundExit, meilisearch_index)
      | NotWellFormed \<Rightarrow> (Uncaught ExpatError, meilisearch_index)
      | Dom animes \<Rightarrow>
          if length animes = 0 then (SysExit NoAnimeFound, meilisearch_index)
          else (case index_loop uid 1 animes meilisearch_index [] of
                  (Returned, sent, data_queue) \<Rightarrow>
                    (case add_documents uid sent data_queue of
                       (Some site, asked) \<Rightarrow> (SysExit site, asked)
                     | (None, asked) \<Rightarrow> (Returned, asked))
                | (failed, sent, data_queue) \<Rightarrow> (failed, sent)))"

record arguments =
  url :: string
  index_uid :: string
  index_name :: string

definition main :: "arguments \<Rightarrow> xml_file \<Rightarrow> meilisearch \<Rightarrow> outcome \<times> meilisearch" where
  "main args file service =
     (case create_connection (url args) service of
        (Some site, asked) \<Rightarrow> (SysExit site, asked)
      | (None, client) \<Rightarrow>
          (let index = get_or_create_index client (index_uid args) (index_name args)
           in parse_and_index file (index_uid args) index))"

section \<open>Vocabulary of the statements\<close>

text \<open>The batches of the \<^verbatim>\<open>add_documents\<close> calls among the calls made, in order.\<close>

fun add_documents_batches :: "sink_call list \<Rightarrow> document list list" where
  "add_documents_batches [] = []"
| "add_documents_batches (AddDocuments uid documents # rest) = documents # add_documents_batches rest"
| "add_documents_batches (other # rest) = add_documents_batches rest"

text \<open>
  The languages of the official variants of an entry, the languages of its official and
  short variants, and its short and official variants of one language in source order.
\<close>

definition official_langs :: "anime_tag \<Rightarrow> string set" where
  "official_langs anime =
     set (map xml_lang (filter (\<lambda>tag. ttype tag = ''official'') (titles anime)))"

definition entry_langs :: "anime_tag \<Rightarrow> string set" where
  "entry_langs anime =
     set (map xml_lang
            (filter (\<lambda>tag. ttype tag = ''official'' \<or> ttype tag = ''short'') (titles anime)))"

definition shorts_of :: "anime_tag \<Rightarrow> string \<Rightarrow> title_tag list" where
  "shorts_of anime language =
     filter (\<lambda>tag. ttype tag = ''short'' \<and> xml_lang tag = language) (titles anime)"

definition officials_of :: "anime_tag \<Rightarrow> string \<Rightarrow> title_tag list" where
  "officials_of anime language =
     filter (\<lambda>tag. ttype tag = ''official'' \<and> xml_lang tag = language) (titles anime)"

section \<open>Example entries\<close>

text \<open>A \<^verbatim>\<open>title\<close> element with its type, its language and its text.\<close>

definition title :: "string \<Rightarrow> string \<Rightarrow> string \<Rightarrow> title_tag" where
  "title type language name = \<lparr>ttype = type, xml_lang = language, first_child = Some name\<rparr>"

definition entry_main_only :: anime_tag where
  "entry_main_only = \<lparr>aid = Some 1, titles = [title ''main'' ''x-jat'' ''Foo'']\<rparr>"

definition entry_no_main :: anime_tag where
  "entry_no_main = \<lparr>aid = Some 2, titles = [title ''official'' ''en'' ''Bar'']\<rparr>"

definition entry_two_shorts :: anime_tag where
  "entry_two_shorts =
     \<lparr>aid = Some 1,
      titles = [title ''short'' ''en'' ''A'', title ''main'' ''x-jat'' ''Foo'',
                title ''official'' ''en'' ''Official'', title ''short'' ''ja'' ''J'',
                title ''short'' ''en'' ''B'']\<rparr>"

definition entry_official_repeated :: anime_tag where
  "entry_official_repeated =
     \<lparr>aid = Some 1,
      titles = [title ''short'' ''en'' ''A'', title ''main'' ''x-jat'' ''Foo'',
                title ''official'' ''en'' ''Official'', title ''short'' ''ja'' ''J'',
                title ''short'' ''en'' ''B'', title ''official'' ''en'' ''Again'']\<rparr>"

definition entry_two_officials :: anime_tag where
  "entry_two_officials =
     \<lparr>aid = Some 7,
      titles = [title ''official'' ''en'' ''First'', title ''main'' ''x-jat'' ''Foo'',
                title ''short'' ''en'' ''A'', title ''official'' ''ja'' ''Nihongo'',
                title ''official'' ''en'' ''Second'', title ''short'' ''en'' ''B'']\<rparr>"

definition empty_title :: "string \<Rightarrow> string \<Rightarrow> title_tag" where
  "empty_title type language = \<lparr>ttype = type, xml_lang = language, first_child = None\<rparr>"

definition entry_two_mains_sparse :: anime_tag where
  "entry_two_mains_sparse =
     \<lparr>aid = Some 3,
      titles = [empty_title ''syn'' ''en'', title ''official'' ''en'' ''Official'',
                title ''main'' ''x-jat'' ''First'', empty_title ''main'' ''x-jat'',
                title ''short'' ''en'' ''A'', empty_title ''short'' ''ja'']\<rparr>"

definition entry_official_no_text :: anime_tag where
  "entry_official_no_text =
     \<lparr>aid = Some 3,
      titles = [title ''main'' ''x-jat'' ''First'', title ''main'' ''x-jat'' ''Second'',
                empty_title ''official'' ''en'']\<rparr>"

definition entry_first_main_no_text :: anime_tag where
  "entry_first_main_no_text =
     \<lparr>aid = Some 3,
      titles = [empty_title ''main'' ''x-jat'', title ''main'' ''x-jat'' ''Second'']\<rparr>"

definition entry_short_no_text :: anime_tag where
  "entry_short_no_text =
     \<lparr>aid = Some 3,
      titles = [title ''main'' ''x-jat'' ''First'', title ''main'' ''x-jat'' ''Second'',
                title ''official'' ''en'' ''Official'', empty_title ''short'' ''en'']\<rparr>"

definition entry_case_clash :: anime_tag where
  "entry_case_clash =
     \<lparr>aid = Some 1,
      titles = [title ''main'' ''x-jat'' ''Foo'',
                title ''official'' ''en'' ''First'', title ''official'' ''en'' ''Second'',
                title ''official'' ''EN'' ''Third'',
                title ''short'' ''en'' ''A'', title ''short'' ''EN'' ''B'']\<rparr>"

definition entry_case_clash_repeated :: anime_tag where
  "entry_case_clash_repeated =
     \<lparr>aid = Some 1,
      titles = [title ''main'' ''x-jat'' ''Foo'',
                title ''official'' ''en'' ''First'', title ''official'' ''en'' ''Second'',
                title ''official'' ''EN'' ''Third'',
                title ''short'' ''en'' ''A'', title ''short'' ''EN'' ''B'',
                title ''official'' ''en'' ''Second'']\<rparr>"

definition entry_hyphen_clash :: anime_tag where
  "entry_hyphen_clash =
     \<lparr>aid = Some 1,
      titles = [title ''main'' ''x-jat'' ''Foo'',
                title ''official'' ''x-jat'' ''First'', title ''official'' ''x-jat'' ''Second'',
                title ''official'' ''x--jat'' ''Third'']\<rparr>"

definition local_service :: meilisearch where
  "local_service = \<lparr>healthy = True, index_uids = [''animes''], accepts = (\<lambda>documents. True), calls = []\<rparr>"

definition default_arguments :: arguments where
  "default_arguments = \<lparr>url = ''http://127.0.0.1:7700'', index_uid = ''animes'', index_name = ''Animes''\<rparr>"

lemmas eval_simps = normalize_def title_def official_key_def short_key_def slugify_def
  slug_words_def lower_char_def slug_alnum_def py_str.simps digit_char_def Let_def
  official_langs_def entry_langs_def shorts_of_def officials_of_def

section \<open>The slugifier splits and joins\<close>

lemma split_runs_not_Nil: "split_runs s \<noteq> []"
  by (induction s) (auto split: list.splits)

lemma split_runs_append_sep:
  "\<not> slug_alnum c \<Longrightarrow> split_runs (xs @ c # ys) = split_runs xs @ split_runs ys"
proof (induction xs)
  case Nil
  then show ?case by simp
next
  case (Cons x xs)
  then show ?case
    using split_runs_not_Nil [of xs]
    by (cases "split_runs xs") auto
qed

lemma split_runs_word: "\<forall>c\<in>set w. slug_alnum c \<Longrightarrow> split_runs w = [w]"
  by (induction w) auto

lemma split_runs_chars_all: "\<forall>w\<in>set (split_runs s). \<forall>c\<in>set w. slug_alnum c"
proof (induction s)
  case Nil
  then show ?case by simp
next
  case (Cons x s)
  show ?case
  proof (cases "split_runs s")
    case Nil
    then show ?thesis by (simp add: split_runs_not_Nil)
  next
    case (Cons a list)
    with Cons.IH show ?thesis by auto
  qed
qed

lemma lower_char_alnum: "slug_alnum c \<Longrightarrow> lower_char c = c"
  unfolding slug_alnum_def lower_char_def by (elim disjE | simp)+

lemma underscore_lower: "\<not> slug_alnum (lower_char (CHR ''_''))"
  by (simp add: slug_alnum_def lower_char_def)

lemma map_lower_word: "\<forall>c\<in>set w. slug_alnum c \<Longrightarrow> map lower_char w = w"
  by (induction w) (simp_all add: lower_char_alnum)

lemma slug_words_append_sep:
  "\<not> slug_alnum (lower_char c) \<Longrightarrow> slug_words (xs @ c # ys) = slug_words xs @ slug_words ys"
  by (simp add: slug_words_def split_runs_append_sep)

lemma slug_words_word:
  "w \<noteq> [] \<Longrightarrow> \<forall>c\<in>set w. slug_alnum c \<Longrightarrow> slug_words w = [w]"
  by (simp add: slug_words_def map_lower_word split_runs_word)

lemma slug_words_Nil: "slug_words [] = []"
  by (simp add: slug_words_def)

lemma slug_words_elems:
  "w \<in> set (slug_words s) \<Longrightarrow> w \<noteq> [] \<and> (\<forall>c\<in>set w. slug_alnum c)"
  using split_runs_chars_all [of "map lower_char s"] by (auto simp: slug_words_def)

lemma slug_words_join:
  "\<forall>w\<in>set ws. w \<noteq> [] \<and> (\<forall>c\<in>set w. slug_alnum c) \<Longrightarrow> slug_words (join_words ''_'' ws) = ws"
proof (induction ws)
  case Nil
  then show ?case by (simp add: slug_words_Nil)
next
  case (Cons w ws)
  show ?case
  proof (cases ws)
    case Nil
    with Cons.prems show ?thesis by (simp add: slug_words_word)
  next
    case (Cons v vs)
    have "slug_words (w @ CHR ''_'' # join_words ''_'' ws) = slug_words w @ slug_words (join_words ''_'' ws)"
      by (rule slug_words_append_sep [OF underscore_lower])
    moreover have "slug_words w = [w]"
      using Cons.prems by (simp add: slug_words_word)
    moreover have "slug_words (join_words ''_'' ws) = ws"
      using Cons.IH Cons.prems by simp
    ultimately show ?thesis using Cons by simp
  qed
qed

lemma slug_words_slugify: "slug_words (slugify s ''_'') = slug_words s"
  unfolding slugify_def by (rule slug_words_join) (simp add: slug_words_elems)

lemma slugify_eq_iff: "slugify a ''_'' = slugify b ''_'' \<longleftrightarrow> slug_words a = slug_words b"
proof
  assume "slugify a ''_'' = slugify b ''_''"
  then have "slug_words (slugify a ''_'') = slug_words (slugify b ''_'')" by simp
  then show "slug_words a = slug_words b" by (simp add: slug_words_slugify)
next
  assume "slug_words a = slug_words b"
  then show "slugify a ''_'' = slugify b ''_''" by (simp add: slugify_def)
qed

subsection \<open>Decimal indices\<close>

lemma digit_char_alnum: "d < 10 \<Longrightarrow> slug_alnum (digit_char d)"
proof -
  assume "d < 10"
  then have "d \<in> {0, 1, 2, 3, 4, 5, 6, 7, 8, 9}" by auto
  then show ?thesis
    unfolding digit_char_def slug_alnum_def by (elim insertE emptyE) simp_all
qed

lemma digit_char_inj: "a < 10 \<Longrightarrow> b < 10 \<Longrightarrow> digit_char a = digit_char b \<Longrightarrow> a = b"
proof -
  assume a: "a < 10" and b: "b < 10" and e: "digit_char a = digit_char b"
  have d: "distinct ''0123456789''" by simp
  have "length ''0123456789'' = 10" by simp
  with a b e d show ?thesis
    unfolding digit_char_def by (metis nth_eq_iff_index_eq)
qed

lemma py_str_not_Nil: "py_str n \<noteq> []"
  by (subst py_str.simps) simp

lemma py_str_alnum: "\<forall>c\<in>set (py_str n). slug_alnum c"
proof (induction n rule: py_str.induct)
  case (1 n)
  show ?case
  proof (cases "n < 10")
    case True
    then show ?thesis by (subst py_str.simps) (simp add: digit_char_alnum)
  next
    case False
    with 1 show ?thesis by (subst py_str.simps) (simp add: digit_char_alnum)
  qed
qed

lemma py_str_inj: "py_str n = py_str m \<Longrightarrow> n = m"
proof (induction n arbitrary: m rule: py_str.induct)
  case (1 n)
  show ?case
  proof (cases "n < 10")
    case True
    have "m < 10"
    proof (rule ccontr)
      assume "\<not> m < 10"
      then have "py_str m = py_str (m div 10) @ [digit_char (m mod 10)]"
        by (subst py_str.simps) simp
      moreover have "py_str n = [digit_char n]" using True by (subst py_str.simps) simp
      ultimately show False using "1.prems" py_str_not_Nil [of "m div 10"] by simp
    qed
    moreover have "py_str n = [digit_char n]" using True by (subst py_str.simps) simp
    moreover have "py_str m = [digit_char m]" using \<open>m < 10\<close> by (subst py_str.simps) simp
    ultimately show ?thesis using True "1.prems" by (simp add: digit_char_inj)
  next
    case False
    then have n: "py_str n = py_str (n div 10) @ [digit_char (n mod 10)]"
      by (subst py_str.simps) simp
    have "\<not> m < 10"
    proof
      assume "m < 10"
      then have "py_str m = [digit_char m]" by (subst py_str.simps) simp
      with n "1.prems" py_str_not_Nil [of "n div 10"] show False by simp
    qed
    then have m: "py_str m = py_str (m div 10) @ [digit_char (m mod 10)]"
      by (subst py_str.simps) simp
    from n m "1.prems" have "py_str (n div 10) = py_str (m div 10)"
      and "digit_char (n mod 10) = digit_char (m mod 10)" by simp_all
    then have "n div 10 = m div 10" and "n mod 10 = m mod 10"
      using "1.IH" [OF False] by (simp_all add: digit_char_inj)
    then show ?thesis by (metis div_mult_mod_eq)
  qed
qed

subsection \<open>The words of the keys\<close>

lemma slug_words_official: "slug_words (''official_'' @ l) = ''official'' # slug_words l"
proof -
  have "slug_words (''official'' @ CHR ''_'' # l) = slug_words ''official'' @ slug_words l"
    by (rule slug_words_append_sep [OF underscore_lower])
  moreover have "slug_words ''official'' = [''official'']"
    by (rule slug_words_word) (simp_all add: slug_alnum_def)
  ultimately show ?thesis by simp
qed

lemma slug_words_short:
  "slug_words (''short_'' @ l @ ''_'' @ py_str k) = ''short'' # slug_words l @ [py_str k]"
proof -
  have "slug_words (''short'' @ CHR ''_'' # (l @ ''_'' @ py_str k))
      = slug_words ''short'' @ slug_words (l @ ''_'' @ py_str k)"
    by (rule slug_words_append_sep [OF underscore_lower])
  moreover have "slug_words ''short'' = [''short'']"
    by (rule slug_words_word) (simp_all add: slug_alnum_def)
  moreover have "slug_words (l @ CHR ''_'' # py_str k) = slug_words l @ slug_words (py_str k)"
    by (rule slug_words_append_sep [OF underscore_lower])
  moreover have "slug_words (py_str k) = [py_str k]"
    by (rule slug_words_word) (simp_all add: py_str_not_Nil py_str_alnum)
  ultimately show ?thesis by simp
qed

lemma slug_words_official_key: "slug_words (official_key l) = ''official'' # slug_words l"
  unfolding official_key_def slug_words_slugify by (rule slug_words_official)

lemma slug_words_short_key: "slug_words (short_key l k) = ''short'' # slug_words l @ [py_str k]"
  unfolding short_key_def slug_words_slugify by (rule slug_words_short)

lemma official_key_eq_iff: "official_key l = official_key l' \<longleftrightarrow> slug_words l = slug_words l'"
  unfolding official_key_def slugify_eq_iff slug_words_official by simp

lemma short_key_eq_iff:
  "short_key l k = short_key l' k' \<longleftrightarrow> slug_words l = slug_words l' \<and> k = k'"
  unfolding short_key_def slugify_eq_iff slug_words_short
  using py_str_inj [of k k'] by auto

lemma official_key_not_short_key: "official_key l \<noteq> short_key l' k"
proof
  assume "official_key l = short_key l' k"
  then have "slug_words (official_key l) = slug_words (short_key l' k)" by simp
  then show False by (simp add: slug_words_official_key slug_words_short_key)
qed

lemma slug_words_main: "slug_words ''main'' = [''main'']"
  by (rule slug_words_word) (simp_all add: slug_alnum_def)

lemma slug_words_anime_id: "slug_words ''anime_id'' = [''anime'', ''id'']"
proof -
  have "slug_words (''anime'' @ CHR ''_'' # ''id'') = slug_words ''anime'' @ slug_words ''id''"
    by (rule slug_words_append_sep [OF underscore_lower])
  moreover have "slug_words ''anime'' = [''anime'']"
    by (rule slug_words_word) (simp_all add: slug_alnum_def)
  moreover have "slug_words ''id'' = [''id'']"
    by (rule slug_words_word) (simp_all add: slug_alnum_def)
  ultimately show ?thesis by simp
qed

lemma official_key_not_main: "official_key l \<noteq> ''main''"
proof
  assume "official_key l = ''main''"
  then have "slug_words (official_key l) = slug_words ''main''" by simp
  then show False by (simp add: slug_words_official_key slug_words_main)
qed

lemma official_key_not_anime_id: "official_key l \<noteq> ''anime_id''"
proof
  assume "official_key l = ''anime_id''"
  then have "slug_words (official_key l) = slug_words ''anime_id''" by simp
  then show False by (simp add: slug_words_official_key slug_words_anime_id)
qed

lemma short_key_not_main: "short_key l k \<noteq> ''main''"
proof
  assume "short_key l k = ''main''"
  then have "slug_words (short_key l k) = slug_words ''main''" by simp
  then show False by (simp add: slug_words_short_key slug_words_main)
qed

lemma short_key_not_anime_id: "short_key l k \<noteq> ''anime_id''"
proof
  assume "short_key l k = ''anime_id''"
  then have "slug_words (short_key l k) = slug_words ''anime_id''" by simp
  then show False by (simp add: slug_words_short_key slug_words_anime_id)
qed

section \<open>What the normalizer writes\<close>

subsection \<open>The loop over the short names\<close>

lemma add_short_names_other:
  "\<forall>j<length names. K \<noteq> short_key l (i + j) \<Longrightarrow>
   map_of (add_short_names l i names d) K = map_of d K"
proof (induction names arbitrary: i d)
  case Nil
  then show ?case by simp
next
  case (Cons n names)
  have "\<forall>j<length names. K \<noteq> short_key l (Suc i + j)"
  proof (intro allI impI)
    fix j assume "j < length names"
    then have "Suc j < length (n # names)" by simp
    with Cons.prems have "K \<noteq> short_key l (i + Suc j)" by blast
    then show "K \<noteq> short_key l (Suc i + j)" by simp
  qed
  then have "map_of (add_short_names l (Suc i) names (AList.update (short_key l i) (JStr n) d)) K
           = map_of (AList.update (short_key l i) (JStr n) d) K"
    by (rule Cons.IH)
  moreover have "K \<noteq> short_key l i" using Cons.prems by force
  ultimately show ?case by (simp add: update_conv')
qed

lemma add_short_names_hit:
  "j < length names \<Longrightarrow>
   map_of (add_short_names l i names d) (short_key l (i + j)) = Some (JStr (names ! j))"
proof (induction names arbitrary: i j d)
  case Nil
  then show ?case by simp
next
  case (Cons n names)
  show ?case
  proof (cases j)
    case 0
    have "\<forall>j'<length names. short_key l i \<noteq> short_key l (Suc i + j')"
      by (simp add: short_key_eq_iff)
    then have "map_of (add_short_names l (Suc i) names (AList.update (short_key l i) (JStr n) d))
                 (short_key l i)
             = map_of (AList.update (short_key l i) (JStr n) d) (short_key l i)"
      by (rule add_short_names_other)
    with 0 show ?thesis by (simp add: update_conv')
  next
    case (Suc j')
    with Cons.prems have "j' < length names" by simp
    then have "map_of (add_short_names l (Suc i) names (AList.update (short_key l i) (JStr n) d))
                 (short_key l (Suc i + j')) = Some (JStr (names ! j'))"
      by (rule Cons.IH)
    with Suc show ?thesis by simp
  qed
qed

lemma add_short_names_lookup:
  "map_of (add_short_names l 1 names d) (short_key l' k) =
     (if slug_words l' = slug_words l \<and> 1 \<le> k \<and> k \<le> length names
      then Some (JStr (names ! (k - 1)))
      else map_of d (short_key l' k))"
proof (cases "slug_words l' = slug_words l \<and> 1 \<le> k \<and> k \<le> length names")
  case True
  then have eq: "short_key l' k = short_key l (1 + (k - 1))"
    by (simp add: short_key_eq_iff)
  from True have "k - 1 < length names" by auto
  then have "map_of (add_short_names l 1 names d) (short_key l (1 + (k - 1)))
           = Some (JStr (names ! (k - 1)))"
    by (rule add_short_names_hit)
  with eq True show ?thesis by simp
next
  case False
  have "\<forall>j<length names. short_key l' k \<noteq> short_key l (1 + j)"
    using False by (auto simp: short_key_eq_iff)
  then have "map_of (add_short_names l 1 names d) (short_key l' k) = map_of d (short_key l' k)"
    by (rule add_short_names_other)
  with False show ?thesis by auto
qed

lemma add_short_names_official_key:
  "map_of (add_short_names l i names d) (official_key l') = map_of d (official_key l')"
  by (rule add_short_names_other) (simp add: official_key_not_short_key)

lemma add_short_names_main:
  "map_of (add_short_names l i names d) ''main'' = map_of d ''main''"
  using short_key_not_main by (intro add_short_names_other) metis

lemma add_short_names_anime_id:
  "map_of (add_short_names l i names d) ''anime_id'' = map_of d ''anime_id''"
  using short_key_not_anime_id by (intro add_short_names_other) metis

lemma add_short_names_agree:
  "\<forall>K. K \<noteq> X \<longrightarrow> map_of d1 K = map_of d2 K \<Longrightarrow>
   \<forall>K. K \<noteq> X \<longrightarrow> map_of (add_short_names l i names d1) K = map_of (add_short_names l i names d2) K"
proof (induction names arbitrary: i d1 d2)
  case Nil
  then show ?case by simp
next
  case (Cons n names)
  have "\<forall>K. K \<noteq> X \<longrightarrow> map_of (AList.update (short_key l i) (JStr n) d1) K
                      = map_of (AList.update (short_key l i) (JStr n) d2) K"
    using Cons.prems by (simp add: update_conv')
  then show ?case using Cons.IH by simp
qed

subsection \<open>The loop over the officials\<close>

lemma add_officials_ConsE:
  assumes "add_officials ts (o' # rest) d = Inr d'"
  obtains v ns where "first_child o' = Some v"
    and "short_names_list ts (xml_lang o') = Inr ns"
    and "add_officials ts rest
           (add_short_names (xml_lang o') 1 ns
              (AList.update (official_key (xml_lang o')) (JStr v) d)) = Inr d'"
  using assms by (auto simp: Let_def split: option.splits sum.splits)

lemma add_officials_short_lookup:
  assumes "add_officials ts offs d = Inr d'"
    and "\<forall>o'\<in>set offs. slug_words (xml_lang o') = slug_words l \<longrightarrow> xml_lang o' = l"
    and "short_names_list ts l = Inr names \<or> l \<notin> xml_lang ` set offs"
  shows "map_of d' (short_key l k) =
           (if l \<in> xml_lang ` set offs \<and> 1 \<le> k \<and> k \<le> length names
            then Some (JStr (names ! (k - 1)))
            else map_of d (short_key l k))"
  using assms
proof (induction offs arbitrary: d)
  case Nil
  then show ?case by simp
next
  case (Cons o' rest)
  from Cons.prems(1) obtain v ns where v: "first_child o' = Some v"
    and ns: "short_names_list ts (xml_lang o') = Inr ns"
    and rest: "add_officials ts rest
           (add_short_names (xml_lang o') 1 ns
              (AList.update (official_key (xml_lang o')) (JStr v) d)) = Inr d'"
    by (rule add_officials_ConsE)
  let ?d1 = "AList.update (official_key (xml_lang o')) (JStr v) d"
  let ?d2 = "add_short_names (xml_lang o') 1 ns ?d1"
  have free: "\<forall>o'\<in>set rest. slug_words (xml_lang o') = slug_words l \<longrightarrow> xml_lang o' = l"
    using Cons.prems(2) by simp
  have names: "l \<in> xml_lang ` set (o' # rest) \<Longrightarrow> short_names_list ts l = Inr names"
    using Cons.prems(3) by blast
  have names': "short_names_list ts l = Inr names \<or> l \<notin> xml_lang ` set rest"
    using Cons.prems(3) by auto
  have IH: "map_of d' (short_key l k) =
           (if l \<in> xml_lang ` set rest \<and> 1 \<le> k \<and> k \<le> length names
            then Some (JStr (names ! (k - 1)))
            else map_of ?d2 (short_key l k))"
    by (rule Cons.IH [OF rest free names'])
  have d1: "map_of ?d1 (short_key l k) = map_of d (short_key l k)"
    using official_key_not_short_key [of "xml_lang o'" l k] by (simp add: update_conv')
  have d2: "map_of ?d2 (short_key l k) =
     (if slug_words l = slug_words (xml_lang o') \<and> 1 \<le> k \<and> k \<le> length ns
      then Some (JStr (ns ! (k - 1)))
      else map_of d (short_key l k))"
    by (simp only: add_short_names_lookup d1)
  show ?case
  proof (cases "xml_lang o' = l")
    case True
    with names ns have "ns = names" by simp
    with True IH d2 show ?thesis by simp
  next
    case False
    with Cons.prems(2) have "slug_words l \<noteq> slug_words (xml_lang o')" by auto
    with False IH d2 show ?thesis by auto
  qed
qed

lemma add_officials_official_lookup:
  assumes "add_officials ts offs d = Inr d'"
  shows "map_of d' (official_key l) =
           (if filter (\<lambda>o'. official_key (xml_lang o') = official_key l) offs = []
            then map_of d (official_key l)
            else map_option JStr
                   (first_child (last (filter (\<lambda>o'. official_key (xml_lang o') = official_key l) offs))))"
  using assms
proof (induction offs arbitrary: d)
  case Nil
  then show ?case by simp
next
  case (Cons o' rest)
  from Cons.prems(1) obtain v ns where v: "first_child o' = Some v"
    and ns: "short_names_list ts (xml_lang o') = Inr ns"
    and rest: "add_officials ts rest
           (add_short_names (xml_lang o') 1 ns
              (AList.update (official_key (xml_lang o')) (JStr v) d)) = Inr d'"
    by (rule add_officials_ConsE)
  let ?P = "\<lambda>o'. official_key (xml_lang o') = official_key l"
  let ?d1 = "AList.update (official_key (xml_lang o')) (JStr v) d"
  let ?d2 = "add_short_names (xml_lang o') 1 ns ?d1"
  have IH: "map_of d' (official_key l) =
           (if filter ?P rest = [] then map_of ?d2 (official_key l)
            else map_option JStr (first_child (last (filter ?P rest))))"
    by (rule Cons.IH [OF rest])
  have d2: "map_of ?d2 (official_key l) =
      (if ?P o' then Some (JStr v) else map_of d (official_key l))"
    by (auto simp: add_short_names_official_key update_conv')
  show ?case
  proof (cases "filter ?P rest = []")
    case True
    with IH d2 v show ?thesis by auto
  next
    case False
    with IH show ?thesis by simp
  qed
qed

lemma add_officials_main:
  "add_officials ts offs d = Inr d' \<Longrightarrow> map_of d' ''main'' = map_of d ''main''"
proof (induction offs arbitrary: d)
  case Nil
  then show ?case by simp
next
  case (Cons o' rest)
  from Cons.prems(1) obtain v ns where 
    rest: "add_officials ts rest
           (add_short_names (xml_lang o') 1 ns
              (AList.update (official_key (xml_lang o')) (JStr v) d)) = Inr d'"
    by (rule add_officials_ConsE)
  show ?case
    using Cons.IH [OF rest] official_key_not_main [of "xml_lang o'"]
    by (simp add: add_short_names_main update_conv')
qed

lemma add_officials_anime_id:
  "add_officials ts offs d = Inr d' \<Longrightarrow> map_of d' ''anime_id'' = map_of d ''anime_id''"
proof (induction offs arbitrary: d)
  case Nil
  then show ?case by simp
next
  case (Cons o' rest)
  from Cons.prems(1) obtain v ns where 
    rest: "add_officials ts rest
           (add_short_names (xml_lang o') 1 ns
              (AList.update (official_key (xml_lang o')) (JStr v) d)) = Inr d'"
    by (rule add_officials_ConsE)
  show ?case
    using Cons.IH [OF rest] official_key_not_anime_id [of "xml_lang o'"]
    by (simp add: add_short_names_anime_id update_conv')
qed

lemma add_officials_scans:
  "add_officials ts offs d = Inr d' \<Longrightarrow> o' \<in> set offs \<Longrightarrow>
   \<exists>names. short_names_list ts (xml_lang o') = Inr names"
proof (induction offs arbitrary: d)
  case Nil
  then show ?case by simp
next
  case (Cons a rest)
  from Cons.prems(1) obtain v ns where ns: "short_names_list ts (xml_lang a) = Inr ns"
    and rest: "add_officials ts rest
           (add_short_names (xml_lang a) 1 ns
              (AList.update (official_key (xml_lang a)) (JStr v) d)) = Inr d'"
    by (rule add_officials_ConsE)
  show ?case
  proof (cases "o' = a")
    case True
    with ns show ?thesis by simp
  next
    case False
    with Cons.prems(2) have "o' \<in> set rest" by simp
    with Cons.IH [OF rest] show ?thesis by simp
  qed
qed

lemma add_officials_texts:
  "add_officials ts offs d = Inr d' \<Longrightarrow> o' \<in> set offs \<Longrightarrow> \<exists>name. first_child o' = Some name"
proof (induction offs arbitrary: d)
  case Nil
  then show ?case by simp
next
  case (Cons a rest)
  from Cons.prems(1) obtain v ns where v: "first_child a = Some v"
    and rest: "add_officials ts rest
           (add_short_names (xml_lang a) 1 ns
              (AList.update (official_key (xml_lang a)) (JStr v) d)) = Inr d'"
    by (rule add_officials_ConsE)
  show ?case
  proof (cases "o' = a")
    case True
    with v show ?thesis by simp
  next
    case False
    with Cons.prems(2) have "o' \<in> set rest" by simp
    with Cons.IH [OF rest] show ?thesis by simp
  qed
qed

lemma add_officials_agree:
  assumes "\<forall>K. K \<noteq> X \<longrightarrow> map_of d1 K = map_of d2 K"
  shows "(\<forall>e. add_officials ts offs d1 = Inl e \<longleftrightarrow> add_officials ts offs d2 = Inl e)
       \<and> (\<forall>r1 r2. add_officials ts offs d1 = Inr r1 \<and> add_officials ts offs d2 = Inr r2 \<longrightarrow>
            (\<forall>K. K \<noteq> X \<longrightarrow> map_of r1 K = map_of r2 K))"
  using assms
proof (induction offs arbitrary: d1 d2)
  case Nil
  then show ?case by simp
next
  case (Cons a rest)
  show ?case
  proof (cases "first_child a")
    case None
    then show ?thesis by simp
  next
    case (Some v)
    show ?thesis
    proof (cases "short_names_list ts (xml_lang a)")
      case (Inl e)
      with Some show ?thesis by simp
    next
      case (Inr ns)
      let ?u1 = "add_short_names (xml_lang a) 1 ns (AList.update (official_key (xml_lang a)) (JStr v) d1)"
      let ?u2 = "add_short_names (xml_lang a) 1 ns (AList.update (official_key (xml_lang a)) (JStr v) d2)"
      have "\<forall>K. K \<noteq> X \<longrightarrow> map_of (AList.update (official_key (xml_lang a)) (JStr v) d1) K
                         = map_of (AList.update (official_key (xml_lang a)) (JStr v) d2) K"
        using Cons.prems by (simp add: update_conv')
      then have "\<forall>K. K \<noteq> X \<longrightarrow> map_of ?u1 K = map_of ?u2 K"
        by (rule add_short_names_agree)
      from Cons.IH [OF this] Some Inr show ?thesis by (simp add: Let_def)
    qed
  qed
qed

lemma short_names_list_Inr:
  "short_names_list ts l = Inr names \<Longrightarrow>
   map Some names = map first_child (filter (\<lambda>tag. ttype tag = ''short'' \<and> xml_lang tag = l) ts)"
  by (induction ts arbitrary: names) (auto split: if_splits option.splits sum.splits)

lemma short_names_list_filter:
  "short_names_list (filter (\<lambda>tag. ttype tag = ''short'') ts) l = short_names_list ts l"
  by (induction ts) (auto split: option.splits sum.splits)

lemma short_names_list_texts:
  "\<forall>tag\<in>set ts. ttype tag = ''short'' \<and> xml_lang tag = l \<longrightarrow> first_child tag \<noteq> None \<Longrightarrow>
   \<exists>names. short_names_list ts l = Inr names"
  by (induction ts) auto

lemma add_officials_succeeds:
  assumes "\<forall>tag\<in>set offs. first_child tag \<noteq> None
             \<and> (\<exists>names. short_names_list ts (xml_lang tag) = Inr names)"
  shows "\<exists>d'. add_officials ts offs d = Inr d'"
  using assms
proof (induction offs arbitrary: d)
  case Nil
  then show ?case by simp
next
  case (Cons a rest)
  from Cons.prems obtain v where v: "first_child a = Some v" by auto
  from Cons.prems obtain ns where ns: "short_names_list ts (xml_lang a) = Inr ns" by auto
  from Cons.prems have "\<forall>tag\<in>set rest. first_child tag \<noteq> None
             \<and> (\<exists>names. short_names_list ts (xml_lang tag) = Inr names)" by simp
  from Cons.IH [OF this] v ns show ?case by (simp add: Let_def)
qed

subsection \<open>The document of an entry\<close>

lemma normalize_InrE:
  assumes "normalize anime = Inr data"
  obtains anime_id main main_name where "aid anime = Some anime_id"
    and "List.find (\<lambda>tag. ttype tag = ''main'') (titles anime) = Some main"
    and "first_child main = Some main_name"
    and "add_officials (titles anime) (filter (\<lambda>tag. ttype tag = ''official'') (titles anime))
           [(''anime_id'', JInt anime_id), (''main'', JStr main_name)] = Inr data"
  using assms by (auto simp: normalize_def Let_def split: option.splits)

lemma official_langs_set:
  "official_langs anime = xml_lang ` set (filter (\<lambda>tag. ttype tag = ''official'') (titles anime))"
  by (simp add: official_langs_def)

lemma official_langs_entry_langs: "official_langs anime \<subseteq> entry_langs anime"
  by (auto simp: official_langs_def entry_langs_def)

lemma normalize_short_lookup:
  assumes "normalize anime = Inr data"
    and "\<forall>lo\<in>official_langs anime. slug_words lo = slug_words l \<longrightarrow> lo = l"
  shows "map_of data (short_key l k) =
           (if l \<in> official_langs anime \<and> 1 \<le> k \<and> k \<le> length (shorts_of anime l)
            then map_option JStr (first_child (shorts_of anime l ! (k - 1)))
            else None)"
    and "l \<in> official_langs anime \<Longrightarrow> \<forall>tag\<in>set (shorts_of anime l). first_child tag \<noteq> None"
proof -
  let ?ts = "titles anime"
  let ?offs = "filter (\<lambda>tag. ttype tag = ''official'') ?ts"
  from assms(1) obtain anime_id main_name where
    run: "add_officials ?ts ?offs [(''anime_id'', JInt anime_id), (''main'', JStr main_name)] = Inr data"
    by (rule normalize_InrE)
  let ?d0 = "[(''anime_id'', JInt anime_id), (''main'', JStr main_name)]"
  have d0: "map_of ?d0 (short_key l k) = None"
    using short_key_not_main [of l k] short_key_not_anime_id [of l k] by auto
  have free: "\<forall>o'\<in>set ?offs. slug_words (xml_lang o') = slug_words l \<longrightarrow> xml_lang o' = l"
    using assms(2) by (auto simp: official_langs_def)
  have both: "map_of data (short_key l k) =
           (if l \<in> official_langs anime \<and> 1 \<le> k \<and> k \<le> length (shorts_of anime l)
            then map_option JStr (first_child (shorts_of anime l ! (k - 1)))
            else None)
     \<and> (l \<in> official_langs anime \<longrightarrow> (\<forall>tag\<in>set (shorts_of anime l). first_child tag \<noteq> None))"
  proof (cases "l \<in> official_langs anime")
    case True
    then obtain o' where "o' \<in> set ?offs" and "xml_lang o' = l"
      by (auto simp: official_langs_def)
    with add_officials_scans [OF run] obtain names where names: "short_names_list ?ts l = Inr names"
      by blast
    then have texts: "map Some names = map first_child (shorts_of anime l)"
      unfolding shorts_of_def by (rule short_names_list_Inr)
    then have len: "length names = length (shorts_of anime l)"
      by (metis length_map)
    have nth: "j < length names \<Longrightarrow> first_child (shorts_of anime l ! j) = Some (names ! j)" for j
      using texts len by (metis nth_map)
    have all: "\<forall>tag\<in>set (shorts_of anime l). first_child tag \<noteq> None"
    proof
      fix tag assume "tag \<in> set (shorts_of anime l)"
      then have "first_child tag \<in> set (map first_child (shorts_of anime l))" by simp
      with texts have "first_child tag \<in> set (map Some names)" by simp
      then show "first_child tag \<noteq> None" by auto
    qed
    have "map_of data (short_key l k) =
           (if l \<in> xml_lang ` set ?offs \<and> 1 \<le> k \<and> k \<le> length names
            then Some (JStr (names ! (k - 1)))
            else map_of ?d0 (short_key l k))"
      by (rule add_officials_short_lookup [OF run free disjI1 [OF names]])
    with True d0 len nth [of "k - 1"] all show ?thesis
      by (auto simp: official_langs_set)
  next
    case False
    then have notin: "l \<notin> xml_lang ` set ?offs" by (simp add: official_langs_set)
    have "map_of data (short_key l k) =
           (if l \<in> xml_lang ` set ?offs \<and> 1 \<le> k \<and> k \<le> length ([]::string list)
            then Some (JStr ([] ! (k - 1)))
            else map_of ?d0 (short_key l k))"
      by (rule add_officials_short_lookup [OF run free disjI2 [OF notin]])
    with False d0 show ?thesis by (simp add: official_langs_set)
  qed
  from both show "map_of data (short_key l k) =
           (if l \<in> official_langs anime \<and> 1 \<le> k \<and> k \<le> length (shorts_of anime l)
            then map_option JStr (first_child (shorts_of anime l ! (k - 1)))
            else None)" by blast
  from both show "l \<in> official_langs anime \<Longrightarrow> \<forall>tag\<in>set (shorts_of anime l). first_child tag \<noteq> None"
    by blast
qed

lemma shorts_of_filter:
  "shorts_of anime l =
     filter (\<lambda>tag. xml_lang tag = l) (filter (\<lambda>tag. ttype tag = ''short'') (titles anime))"
  by (simp add: shorts_of_def conj_commute)

lemma find_filter_Cons: "filter P xs = y # ys \<Longrightarrow> List.find P xs = Some y"
  by (induction xs) (auto split: if_splits)

lemma normalize_no_main:
  "aid anime = Some anime_id \<Longrightarrow> \<forall>tag\<in>set (titles anime). ttype tag \<noteq> ''main'' \<Longrightarrow>
   normalize anime = Inl StopIteration"
proof -
  assume a: "aid anime = Some anime_id" and "\<forall>tag\<in>set (titles anime). ttype tag \<noteq> ''main''"
  then have "List.find (\<lambda>tag. ttype tag = ''main'') (titles anime) = None"
    by (simp add: find_None_iff)
  with a show ?thesis by (simp add: normalize_def)
qed

lemma normalize_entry_main_only:
  "normalize entry_main_only = Inr [(''anime_id'', JInt 1), (''main'', JStr ''Foo'')]"
  by (simp add: entry_main_only_def title_def normalize_def)

section \<open>What the batch loop sends\<close>

lemma add_documents_batches_append:
  "add_documents_batches (xs @ ys) = add_documents_batches xs @ add_documents_batches ys"
  by (induction xs rule: add_documents_batches.induct) simp_all

lemma add_documents_batches_map:
  "add_documents_batches (map (AddDocuments uid) batches) = batches"
  by (induction batches) simp_all

lemma index_loop_batches:
  assumes "\<forall>documents. accepts sink documents"
    and "map normalize animes = map Inr docs"
    and "length queue < 500"
    and "index mod 500 = Suc (length queue) mod 500"
  shows "\<exists>batches queue'.
           index_loop uid index animes sink queue =
             (Returned, sink\<lparr>calls := calls sink @ map (AddDocuments uid) batches\<rparr>, queue')
         \<and> concat batches @ queue' = queue @ docs
         \<and> (\<forall>b\<in>set batches. length b = 500)
         \<and> length queue' < 500"
  using assms
proof (induction animes arbitrary: docs sink queue index)
  case Nil
  then have "docs = []" by simp
  with Nil.prems(3) show ?case
    by (intro exI [of _ "[]"] exI [of _ queue]) simp
next
  case (Cons a rest)
  from Cons.prems(2) obtain d ds where docs: "docs = d # ds"
    and d: "normalize a = Inr d" and ds: "map normalize rest = map Inr ds"
    by (cases docs) auto
  let ?q1 = "queue @ [d]"
  show ?case
  proof (cases "index mod 500 = 0")
    case True
    with Cons.prems(3,4) have len: "length ?q1 = 500" by (auto simp: mod_Suc split: if_splits)
    let ?s1 = "sink\<lparr>calls := calls sink @ [AddDocuments uid ?q1]\<rparr>"
    have acc: "\<forall>documents. accepts ?s1 documents" using Cons.prems(1) by simp
    have idx: "Suc index mod 500 = Suc (length ([]::document list)) mod 500"
      using True by (simp add: mod_Suc)
    from Cons.IH [OF acc ds _ idx] obtain batches queue' where
      run: "index_loop uid (Suc index) rest ?s1 [] =
             (Returned, ?s1\<lparr>calls := calls ?s1 @ map (AddDocuments uid) batches\<rparr>, queue')"
      and cat: "concat batches @ queue' = [] @ ds"
      and full: "\<forall>b\<in>set batches. length b = 500"
      and short: "length queue' < 500"
      by auto
    have "index_loop uid index (a # rest) sink queue =
             (Returned, sink\<lparr>calls := calls sink @ map (AddDocuments uid) (?q1 # batches)\<rparr>, queue')"
      using d True Cons.prems(1) run by (simp add: add_documents_def Let_def)
    moreover have "concat (?q1 # batches) @ queue' = queue @ docs"
      using cat docs by simp
    moreover have "\<forall>b\<in>set (?q1 # batches). length b = 500"
      using full len by simp
    ultimately show ?thesis using short by blast
  next
    case False
    with Cons.prems(3,4) have len: "length ?q1 < 500" by (auto simp: mod_Suc split: if_splits)
    have idx: "Suc index mod 500 = Suc (length ?q1) mod 500"
      using Cons.prems(4) by (simp add: mod_Suc)
    from Cons.IH [OF Cons.prems(1) ds len idx] obtain batches queue' where
      run: "index_loop uid (Suc index) rest sink ?q1 =
             (Returned, sink\<lparr>calls := calls sink @ map (AddDocuments uid) batches\<rparr>, queue')"
      and cat: "concat batches @ queue' = ?q1 @ ds"
      and full: "\<forall>b\<in>set batches. length b = 500"
      and short: "length queue' < 500"
      by auto
    have "index_loop uid index (a # rest) sink queue =
             (Returned, sink\<lparr>calls := calls sink @ map (AddDocuments uid) batches\<rparr>, queue')"
      using d False run by (simp add: Let_def)
    moreover have "concat batches @ queue' = queue @ docs"
      using cat docs by simp
    ultimately show ?thesis using full short by blast
  qed
qed

lemma length_concat_full:
  "\<forall>b\<in>set batches. length b = n \<Longrightarrow> length (concat batches) = n * length batches"
  by (induction batches) simp_all

lemma map_length_full:
  "\<forall>b\<in>set batches. length b = n \<Longrightarrow> map length batches = replicate (length batches) n"
  by (induction batches) simp_all

lemma parse_and_index_batches:
  assumes "animes \<noteq> []"
    and "\<forall>documents. accepts sink documents"
    and "map normalize animes = map Inr docs"
  shows "\<exists>batches.
           parse_and_index (Dom animes) uid sink =
             (Returned, sink\<lparr>calls := calls sink @ map (AddDocuments uid) batches\<rparr>)
         \<and> concat batches = docs
         \<and> map length batches = replicate (length animes div 500) 500 @ [length animes mod 500]"
proof -
  have idx: "1 mod 500 = Suc (length ([]::document list)) mod 500" by simp
  from index_loop_batches [OF assms(2,3) _ idx, of uid] obtain batches queue' where
    run: "index_loop uid 1 animes sink [] =
             (Returned, sink\<lparr>calls := calls sink @ map (AddDocuments uid) batches\<rparr>, queue')"
    and cat: "concat batches @ queue' = docs"
    and full: "\<forall>b\<in>set batches. length b = 500"
    and short: "length queue' < 500"
    by auto
  have n: "length animes = length docs"
    using assms(3) by (metis length_map)
  have "length docs = length (concat batches) + length queue'"
    using cat by (metis length_append)
  then have total: "length animes = 500 * length batches + length queue'"
    using n length_concat_full [OF full] by simp
  with short have quot: "length batches = length animes div 500"
    and rem: "length queue' = length animes mod 500" by auto
  have "parse_and_index (Dom animes) uid sink =
          (Returned, sink\<lparr>calls := calls sink @ map (AddDocuments uid) (batches @ [queue'])\<rparr>)"
    using assms(1,2) run by (simp add: parse_and_index_def add_documents_def Let_def)
  moreover have "concat (batches @ [queue']) = docs" using cat by simp
  moreover have "map length (batches @ [queue'])
      = replicate (length animes div 500) 500 @ [length animes mod 500]"
    using map_length_full [OF full] quot rem by simp
  ultimately show ?thesis by blast
qed

lemma ceil_div_500:
  fixes n :: nat
  shows "(n + 499) div 500 = n div 500 + (if n mod 500 = 0 then 0 else 1)"
proof -
  define q where "q = n div 500"
  define r where "r = n mod 500"
  have n: "n = r + q * 500" and r: "r < 500" by (simp_all add: q_def r_def)
  have "(r + 499) div 500 = (if r = 0 then 0 else 1)"
  proof (cases "r = 0")
    case True
    then show ?thesis by simp
  next
    case False
    with r have "500 * 1 \<le> r + 499" and "r + 499 < 500 * Suc 1" by simp_all
    then have "(r + 499) div 500 = 1" by (rule div_nat_eqI)
    with False show ?thesis by simp
  qed
  moreover have "(n + 499) div 500 = q + (r + 499) div 500"
  proof -
    have "n + 499 = (r + 499) + q * 500" using n by simp
    then show ?thesis by (simp only: div_mult_self1 [of 500 "r + 499" q, simplified] ) 
  qed
  ultimately show ?thesis by (simp add: q_def r_def)
qed

lemma length_filter_map_length:
  "length (filter (\<lambda>b. b \<noteq> []) batches) = length (filter (\<lambda>n. n \<noteq> 0) (map length batches))"
  by (induction batches) simp_all

lemma index_loop_append:
  "index_loop uid index before sink queue = (Returned, sent, queue') \<Longrightarrow>
   index_loop uid index (before @ rest) sink queue =
     index_loop uid (index + length before) rest sent queue'"
proof (induction before arbitrary: index sink queue)
  case Nil
  then show ?case by simp
next
  case (Cons a before)
  from Cons.prems obtain d where d: "normalize a = Inr d"
    by (cases "normalize a") auto
  show ?case
  proof (cases "index mod 500 = 0")
    case True
    with Cons.prems d have acc: "accepts sink (queue @ [d])"
      by (auto simp: add_documents_def Let_def split: if_splits)
    with Cons.prems d True
    have "index_loop uid (Suc index) before
            (sink\<lparr>calls := calls sink @ [AddDocuments uid (queue @ [d])]\<rparr>) []
          = (Returned, sent, queue')"
      by (simp add: add_documents_def Let_def)
    from Cons.IH [OF this] d True acc show ?thesis
      by (simp add: add_documents_def Let_def)
  next
    case False
    with Cons.prems d
    have "index_loop uid (Suc index) before sink (queue @ [d]) = (Returned, sent, queue')"
      by (simp add: Let_def)
    from Cons.IH [OF this] d False show ?thesis by (simp add: Let_def)
  qed
qed

section \<open>The driver when the catalog file is absent\<close>

text \<open>
  C1 (as amended). When the service answers the health check and the file
  \<^verbatim>\<open>anime-titles.xml\<close> is absent, the run ends at the \<^verbatim>\<open>sys.exit\<close> of the
  FileNotFoundError handler with status 1, and by then the index has been cleared:
  \<^verbatim>\<open>main\<close> calls \<^verbatim>\<open>get_or_create_index\<close>, which ends with
  \<^verbatim>\<open>delete_all_documents\<close>, before \<^verbatim>\<open>parse_and_index\<close> opens the file. The calls made
  are the health check, the listing, the lookup or creation of the index and the
  deletion of all documents; no \<^verbatim>\<open>add_documents\<close> call is made.
\<close>

theorem main_file_absent_clears_index:
  assumes "healthy service"
  shows "fst (main args FileNotFound service) = SysExit FileNotFoundExit
       \<and> exit_status (fst (main args FileNotFound service)) = 1
       \<and> calls (snd (main args FileNotFound service)) =
           calls service @
             [Health, GetIndexes,
              if index_uid args \<in> set (index_uids service)
              then GetIndex (index_uid args)
              else CreateIndex (index_uid args) (index_name args),
              DeleteAllDocuments (index_uid args)]"
  using assms
  by (simp add: main_def create_connection_def get_or_create_index_def parse_and_index_def
      Let_def find_None_iff)

theorem main_file_absent_clears_index_witness:
  "healthy \<lparr>healthy = True, index_uids = [''animes''], accepts = (\<lambda>b. True), calls = []\<rparr>
   \<and> fst (main \<lparr>url = ''http://127.0.0.1:7700'', index_uid = ''animes'', index_name = ''Animes''\<rparr>
        FileNotFound
        \<lparr>healthy = True, index_uids = [''animes''], accepts = (\<lambda>b. True), calls = []\<rparr>)
      = SysExit FileNotFoundExit
   \<and> calls (snd (main \<lparr>url = ''http://127.0.0.1:7700'', index_uid = ''animes'', index_name = ''Animes''\<rparr>
        FileNotFound
        \<lparr>healthy = True, index_uids = [''animes''], accepts = (\<lambda>b. True), calls = []\<rparr>))
      = [Health, GetIndexes, GetIndex ''animes'', DeleteAllDocuments ''animes'']"
  using main_file_absent_clears_index
    [of "\<lparr>healthy = True, index_uids = [''animes''], accepts = (\<lambda>b. True), calls = []\<rparr>"
        "\<lparr>url = ''http://127.0.0.1:7700'', index_uid = ''animes'', index_name = ''Animes''\<rparr>"]
  by simp

text \<open>
  The claim as the specification states it (the index is left untouched) fails on the
  default arguments with an existing index: the run ends at the missing file and the
  deletion of all documents is among the calls already made.
\<close>

theorem main_file_absent_index_untouched_counterexample:
  "fst (main \<lparr>url = ''http://127.0.0.1:7700'', index_uid = ''animes'', index_name = ''Animes''\<rparr>
        FileNotFound
        \<lparr>healthy = True, index_uids = [''animes''], accepts = (\<lambda>b. True), calls = []\<rparr>)
     = SysExit FileNotFoundExit
   \<and> DeleteAllDocuments ''animes'' \<in> set (calls (snd
       (main \<lparr>url = ''http://127.0.0.1:7700'', index_uid = ''animes'', index_name = ''Animes''\<rparr>
        FileNotFound
        \<lparr>healthy = True, index_uids = [''animes''], accepts = (\<lambda>b. True), calls = []\<rparr>)))"
  by (simp add: main_def create_connection_def get_or_create_index_def parse_and_index_def Let_def)

section \<open>Batches\<close>

text \<open>
  C2 (as amended). For a catalog of \<open>N \<ge> 1\<close> entries that all normalize and a sink that
  accepts every batch, \<^verbatim>\<open>parse_and_index\<close> returns after exactly \<open>N div 500 + 1\<close>
  \<^verbatim>\<open>add_documents\<close> calls: one batch of 500 documents at every index that is a multiple
  of 500, and then the queue left after the loop, which is sent whatever it holds, so also
  when it is empty (\<open>N\<close> a multiple of 500). The batches, concatenated, are the normalized
  documents in source order, with no duplication or loss, and \<open>ceil(N / 500)\<close> of them
  are non-empty. 1200 entries give three calls of sizes 500, 500 and 200.
\<close>

theorem batches_submitted:
  assumes "animes \<noteq> []"
    and "\<forall>documents. accepts sink documents"
    and "map normalize animes = map Inr docs"
  shows "\<exists>batches.
           parse_and_index (Dom animes) uid sink =
             (Returned, sink\<lparr>calls := calls sink @ map (AddDocuments uid) batches\<rparr>)
         \<and> concat batches = docs
         \<and> map length batches = replicate (length animes div 500) 500 @ [length animes mod 500]
         \<and> length batches = length animes div 500 + 1
         \<and> length (filter (\<lambda>b. b \<noteq> []) batches) = (length animes + 499) div 500"
proof -
  from parse_and_index_batches [OF assms, of uid] obtain batches where
    run: "parse_and_index (Dom animes) uid sink =
             (Returned, sink\<lparr>calls := calls sink @ map (AddDocuments uid) batches\<rparr>)"
    and cat: "concat batches = docs"
    and sizes: "map length batches = replicate (length animes div 500) 500 @ [length animes mod 500]"
    by blast
  have "length (map length batches) = length animes div 500 + 1"
    by (simp only: sizes) simp
  then have count: "length batches = length animes div 500 + 1" by simp
  have "length (filter (\<lambda>b. b \<noteq> []) batches)
      = length animes div 500 + (if length animes mod 500 = 0 then 0 else 1)"
    by (simp only: length_filter_map_length sizes) simp
  also have "\<dots> = (length animes + 499) div 500" by (simp only: ceil_div_500)
  finally have nonempty: "length (filter (\<lambda>b. b \<noteq> []) batches) = (length animes + 499) div 500" .
  from run cat sizes count nonempty show ?thesis by blast
qed

theorem batches_submitted_witness:
  "replicate 1200 entry_main_only \<noteq> []
   \<and> (\<forall>documents. accepts local_service documents)
   \<and> map normalize (replicate 1200 entry_main_only)
       = map Inr (replicate 1200 [(''anime_id'', JInt 1), (''main'', JStr ''Foo'')])
   \<and> map length (add_documents_batches (calls (snd
        (parse_and_index (Dom (replicate 1200 entry_main_only)) ''animes'' local_service))))
       = [500, 500, 200]"
proof -
  have h1: "replicate 1200 entry_main_only \<noteq> []" by simp
  have h2: "\<forall>documents. accepts local_service documents" by (simp add: local_service_def)
  have h3: "map normalize (replicate 1200 entry_main_only)
       = map Inr (replicate 1200 [(''anime_id'', JInt 1), (''main'', JStr ''Foo'')])"
    by (simp add: normalize_entry_main_only)
  from batches_submitted [OF h1 h2 h3, of "''animes''"] obtain batches where
    run: "parse_and_index (Dom (replicate 1200 entry_main_only)) ''animes'' local_service =
             (Returned, local_service\<lparr>calls := calls local_service @ map (AddDocuments ''animes'') batches\<rparr>)"
    and sizes: "map length batches = replicate (length (replicate 1200 entry_main_only) div 500) 500
                  @ [length (replicate 1200 entry_main_only) mod 500]"
    by blast
  have "add_documents_batches (calls (snd
        (parse_and_index (Dom (replicate 1200 entry_main_only)) ''animes'' local_service))) = batches"
    by (subst run) (simp add: local_service_def add_documents_batches_map)
  moreover have "map length batches = [500, 500, 200]"
    using sizes by (simp add: numeral_2_eq_2)
  ultimately show ?thesis using h1 h2 h3 by simp
qed

text \<open>
  The claim as the specification states it (an empty final flush is skipped, so
  \<open>ceil(N / 500)\<close> calls) fails at 500 entries: the sink receives two calls, the second
  with an empty batch.
\<close>

theorem empty_final_batch_counterexample:
  "map length (add_documents_batches (calls (snd
        (parse_and_index (Dom (replicate 500 entry_main_only)) ''animes'' local_service))))
     = [500, 0]"
proof -
  have h1: "replicate 500 entry_main_only \<noteq> []" by simp
  have h2: "\<forall>documents. accepts local_service documents" by (simp add: local_service_def)
  have h3: "map normalize (replicate 500 entry_main_only)
       = map Inr (replicate 500 [(''anime_id'', JInt 1), (''main'', JStr ''Foo'')])"
    by (simp add: normalize_entry_main_only)
  from parse_and_index_batches [OF h1 h2 h3, of "''animes''"] obtain batches where
    run: "parse_and_index (Dom (replicate 500 entry_main_only)) ''animes'' local_service =
             (Returned, local_service\<lparr>calls := calls local_service @ map (AddDocuments ''animes'') batches\<rparr>)"
    and sizes: "map length batches = replicate (length (replicate 500 entry_main_only) div 500) 500
                  @ [length (replicate 500 entry_main_only) mod 500]"
    by blast
  have "add_documents_batches (calls (snd
        (parse_and_index (Dom (replicate 500 entry_main_only)) ''animes'' local_service))) = batches"
    by (subst run) (simp add: local_service_def add_documents_batches_map)
  moreover have "map length batches = [500, 0]"
    using sizes by simp
  ultimately show ?thesis by simp
qed

section \<open>Documents\<close>

text \<open>
  C3 (as amended). For every entry whose id is an integer, that has a main title with a
  text and no official and no short title, normalization yields the document with exactly
  the two fields \<^verbatim>\<open>anime_id\<close> and \<^verbatim>\<open>main\<close>: \<^verbatim>\<open>anime_id\<close> is the integer id of the entry and
  \<^verbatim>\<open>main\<close> is the text of the main title.
\<close>

theorem normalize_main_only:
  assumes "aid anime = Some anime_id"
    and "List.find (\<lambda>tag. ttype tag = ''main'') (titles anime) = Some main_tag"
    and "first_child main_tag = Some main_name"
    and "\<forall>tag\<in>set (titles anime). ttype tag \<noteq> ''official'' \<and> ttype tag \<noteq> ''short''"
  shows "normalize anime = Inr [(''anime_id'', JInt anime_id), (''main'', JStr main_name)]"
proof -
  have "filter (\<lambda>tag. ttype tag = ''official'') (titles anime) = []"
    using assms(4) by (simp add: filter_empty_conv)
  with assms(1-3) show ?thesis by (simp add: normalize_def)
qed

theorem normalize_main_only_witness:
  "aid entry_main_only = Some 1
   \<and> List.find (\<lambda>tag. ttype tag = ''main'') (titles entry_main_only) = Some (title ''main'' ''x-jat'' ''Foo'')
   \<and> first_child (title ''main'' ''x-jat'' ''Foo'') = Some ''Foo''
   \<and> filter (\<lambda>tag. ttype tag = ''official'' \<or> ttype tag = ''short'') (titles entry_main_only) = []
   \<and> normalize entry_main_only = Inr [(''anime_id'', JInt 1), (''main'', JStr ''Foo'')]"
proof -
  have h1: "aid entry_main_only = Some 1" by (simp add: entry_main_only_def)
  have h2: "List.find (\<lambda>tag. ttype tag = ''main'') (titles entry_main_only) = Some (title ''main'' ''x-jat'' ''Foo'')"
    by (simp add: entry_main_only_def title_def)
  have h3: "first_child (title ''main'' ''x-jat'' ''Foo'') = Some ''Foo''" by (simp add: title_def)
  have h4: "\<forall>tag\<in>set (titles entry_main_only). ttype tag \<noteq> ''official'' \<and> ttype tag \<noteq> ''short''"
    by (simp add: entry_main_only_def title_def)
  have none: "filter (\<lambda>tag. ttype tag = ''official'' \<or> ttype tag = ''short'')
                (titles entry_main_only) = []"
    by (simp add: entry_main_only_def title_def)
  from h1 h2 h3 none normalize_main_only [OF h1 h2 h3 h4] show ?thesis by blast
qed

text \<open>
  The claim as the specification states it (the field set is \<^verbatim>\<open>{id, main}\<close>) fails on the
  entry with the single main title \<^verbatim>\<open>Foo\<close>: the id is stored under the key \<^verbatim>\<open>anime_id\<close>,
  and the document has no field \<^verbatim>\<open>id\<close>.
\<close>

theorem normalize_id_key_counterexample:
  "normalize entry_main_only = Inr [(''anime_id'', JInt 1), (''main'', JStr ''Foo'')]
   \<and> map fst [(''anime_id'', JInt 1), (''main'', JStr ''Foo'')] \<noteq> [''id'', ''main'']
   \<and> map_of [(''anime_id'', JInt 1), (''main'', JStr ''Foo'')] ''id'' = None"
  by (simp add: entry_main_only_def eval_simps)

text \<open>
  C4 (as amended). For every entry that normalizes and in which no two distinct languages
  of official or short titles slugify to the same string, and for every language
  \<open>language\<close> of the entry: the field \<^verbatim>\<open>short_<language>_<k>\<close> exists if and only if an
  official title of that language exists somewhere in the title list and \<open>k\<close> is between
  1 and the number of short titles of that language; its value is the text of the
  \<open>k\<close>-th short title of that language in source order. So an entry with official \<^verbatim>\<open>en\<close>
  "Official" and the two \<^verbatim>\<open>en\<close> shorts "A" and "B" has \<^verbatim>\<open>official_en\<close>, \<^verbatim>\<open>short_en_1\<close> = "A"
  and \<^verbatim>\<open>short_en_2\<close> = "B", wherever the shorts stand relative to the official title.
\<close>

theorem short_fields_iff_official:
  assumes "normalize anime = Inr data"
    and "inj_on (\<lambda>l. slugify l ''_'') (entry_langs anime)"
    and "language \<in> entry_langs anime"
  shows "map_of data (short_key language k) =
           (if language \<in> official_langs anime \<and> 1 \<le> k \<and> k \<le> length (shorts_of anime language)
            then map_option JStr (first_child (shorts_of anime language ! (k - 1)))
            else None)
       \<and> (language \<in> official_langs anime \<longrightarrow>
            (\<forall>tag\<in>set (shorts_of anime language). first_child tag \<noteq> None))"
proof -
  have free: "\<forall>lo\<in>official_langs anime. slug_words lo = slug_words language \<longrightarrow> lo = language"
  proof (intro ballI impI)
    fix lo assume lo: "lo \<in> official_langs anime" and "slug_words lo = slug_words language"
    then have "slugify lo ''_'' = slugify language ''_''" by (simp add: slugify_eq_iff)
    moreover have "lo \<in> entry_langs anime" using lo official_langs_entry_langs by blast
    ultimately show "lo = language" using assms(2,3) by (simp add: inj_on_def)
  qed
  show ?thesis
    using normalize_short_lookup [OF assms(1) free] by blast
qed

theorem short_fields_iff_official_witness:
  "normalize entry_two_shorts =
     Inr [(''anime_id'', JInt 1), (''main'', JStr ''Foo''), (''official_en'', JStr ''Official''),
          (''short_en_1'', JStr ''A''), (''short_en_2'', JStr ''B'')]
   \<and> inj_on (\<lambda>l. slugify l ''_'') (entry_langs entry_two_shorts)
   \<and> ''en'' \<in> entry_langs entry_two_shorts \<and> ''ja'' \<in> entry_langs entry_two_shorts
   \<and> short_key ''en'' 1 = ''short_en_1'' \<and> short_key ''en'' 2 = ''short_en_2''
   \<and> map_of [(''anime_id'', JInt 1), (''main'', JStr ''Foo''), (''official_en'', JStr ''Official''),
          (''short_en_1'', JStr ''A''), (''short_en_2'', JStr ''B'')] (short_key ''en'' 2)
       = Some (JStr ''B'')
   \<and> map_of [(''anime_id'', JInt 1), (''main'', JStr ''Foo''), (''official_en'', JStr ''Official''),
          (''short_en_1'', JStr ''A''), (''short_en_2'', JStr ''B'')] (short_key ''ja'' 1)
       = None"
proof -
  let ?d = "[(''anime_id'', JInt 1), (''main'', JStr ''Foo''), (''official_en'', JStr ''Official''),
          (''short_en_1'', JStr ''A''), (''short_en_2'', JStr ''B'')]"
  have h1: "normalize entry_two_shorts = Inr ?d"
    by (simp add: entry_two_shorts_def eval_simps)
  have h2: "inj_on (\<lambda>l. slugify l ''_'') (entry_langs entry_two_shorts)"
    by (simp add: inj_on_def entry_two_shorts_def eval_simps)
  have h3: "''en'' \<in> entry_langs entry_two_shorts"
    by (simp add: entry_two_shorts_def eval_simps)
  have h4: "''ja'' \<in> entry_langs entry_two_shorts"
    by (simp add: entry_two_shorts_def eval_simps)
  have k: "short_key ''en'' 1 = ''short_en_1''" "short_key ''en'' 2 = ''short_en_2''"
    by (simp_all add: eval_simps)
  have a: "map_of ?d (short_key ''en'' 2) = Some (JStr ''B'')"
    using short_fields_iff_official [OF h1 h2 h3, of 2]
    by (simp add: entry_two_shorts_def title_def official_langs_def shorts_of_def)
  have b: "map_of ?d (short_key ''ja'' 1) = None"
    using short_fields_iff_official [OF h1 h2 h4, of 1]
    by (simp add: entry_two_shorts_def title_def official_langs_def shorts_of_def)
  from h1 h2 h3 h4 k a b show ?thesis by blast
qed

text \<open>
  The claim as the specification states it (for every entry) fails when two languages of
  the entry slugify to the same string: with officials \<^verbatim>\<open>en\<close> and \<^verbatim>\<open>EN\<close>, the short "A" of
  \<^verbatim>\<open>en\<close> and the short "B" of \<^verbatim>\<open>EN\<close>, both shorts are written to \<^verbatim>\<open>short_en_1\<close>, and the
  document keeps "B" only: the short "A" has an official title of its language and no
  field.
\<close>

theorem short_fields_iff_official_counterexample:
  "normalize entry_case_clash =
     Inr [(''anime_id'', JInt 1), (''main'', JStr ''Foo''), (''official_en'', JStr ''Third''),
          (''short_en_1'', JStr ''B'')]
   \<and> ''en'' \<in> official_langs entry_case_clash
   \<and> shorts_of entry_case_clash ''en'' = [title ''short'' ''en'' ''A'']
   \<and> short_key ''en'' 1 = ''short_en_1''"
  by (simp add: entry_case_clash_def eval_simps)

text \<open>
  C5 (as amended). For every entry that normalizes and has official titles of the language
  \<open>language\<close> (two or more, or one), where no official title of another language slugifies
  to the same string: the document stores under the official key of \<open>language\<close> the text
  of the official title of that language that is last in source order.
\<close>

theorem official_last_write_wins:
  assumes "normalize anime = Inr data"
    and "\<forall>tag\<in>set (titles anime). ttype tag = ''official'' \<longrightarrow>
           slugify (xml_lang tag) ''_'' = slugify language ''_'' \<longrightarrow> xml_lang tag = language"
    and "officials_of anime language \<noteq> []"
  shows "\<exists>name. first_child (last (officials_of anime language)) = Some name
               \<and> map_of data (official_key language) = Some (JStr name)"
proof -
  let ?ts = "titles anime"
  let ?offs = "filter (\<lambda>tag. ttype tag = ''official'') ?ts"
  let ?P = "\<lambda>o'. official_key (xml_lang o') = official_key language"
  from assms(1) obtain anime_id main_name where
    run: "add_officials ?ts ?offs [(''anime_id'', JInt anime_id), (''main'', JStr main_name)] = Inr data"
    by (rule normalize_InrE)
  have same: "filter ?P ?offs = officials_of anime language"
    unfolding officials_of_def filter_filter
  proof (rule filter_cong [OF refl])
    fix tag assume "tag \<in> set ?ts"
    with assms(2) show "(ttype tag = ''official'' \<and> ?P tag) = (ttype tag = ''official'' \<and> xml_lang tag = language)"
      by (auto simp: official_key_eq_iff slugify_eq_iff)
  qed
  have "last (officials_of anime language) \<in> set (officials_of anime language)"
    using assms(3) by simp
  then have "last (officials_of anime language) \<in> set ?offs"
    by (auto simp: officials_of_def)
  with add_officials_texts [OF run] obtain name
    where name: "first_child (last (officials_of anime language)) = Some name" by blast
  have "map_of data (official_key language) =
          (if filter ?P ?offs = []
           then map_of [(''anime_id'', JInt anime_id), (''main'', JStr main_name)] (official_key language)
           else map_option JStr (first_child (last (filter ?P ?offs))))"
    by (rule add_officials_official_lookup [OF run])
  then have "map_of data (official_key language) =
          (if officials_of anime language = []
           then map_of [(''anime_id'', JInt anime_id), (''main'', JStr main_name)] (official_key language)
           else map_option JStr (first_child (last (officials_of anime language))))"
    by (simp only: same)
  with assms(3) name show ?thesis by simp
qed

theorem official_last_write_wins_witness:
  "normalize entry_two_officials =
     Inr [(''anime_id'', JInt 7), (''main'', JStr ''Foo''), (''official_en'', JStr ''Second''),
          (''short_en_1'', JStr ''A''), (''short_en_2'', JStr ''B''),
          (''official_ja'', JStr ''Nihongo'')]
   \<and> map xml_lang (filter (\<lambda>tag. ttype tag = ''official''
              \<and> slugify (xml_lang tag) ''_'' = slugify ''en'' ''_'') (titles entry_two_officials))
       = [''en'', ''en'']
   \<and> officials_of entry_two_officials ''en''
       = [title ''official'' ''en'' ''First'', title ''official'' ''en'' ''Second'']
   \<and> official_key ''en'' = ''official_en''
   \<and> map_of [(''anime_id'', JInt 7), (''main'', JStr ''Foo''), (''official_en'', JStr ''Second''),
          (''short_en_1'', JStr ''A''), (''short_en_2'', JStr ''B''),
          (''official_ja'', JStr ''Nihongo'')] (official_key ''en'') = Some (JStr ''Second'')"
proof -
  let ?d = "[(''anime_id'', JInt 7), (''main'', JStr ''Foo''), (''official_en'', JStr ''Second''),
          (''short_en_1'', JStr ''A''), (''short_en_2'', JStr ''B''),
          (''official_ja'', JStr ''Nihongo'')]"
  have h1: "normalize entry_two_officials = Inr ?d"
    by (simp add: entry_two_officials_def eval_simps)
  have h2: "\<forall>tag\<in>set (titles entry_two_officials). ttype tag = ''official'' \<longrightarrow>
           slugify (xml_lang tag) ''_'' = slugify ''en'' ''_'' \<longrightarrow> xml_lang tag = ''en''"
    by (simp add: entry_two_officials_def eval_simps)
  have h3: "officials_of entry_two_officials ''en''
       = [title ''official'' ''en'' ''First'', title ''official'' ''en'' ''Second'']"
    by (simp add: entry_two_officials_def title_def officials_of_def)
  then have h3': "officials_of entry_two_officials ''en'' \<noteq> []" by simp
  have k: "official_key ''en'' = ''official_en''" by (simp add: eval_simps)
  have "map_of ?d (official_key ''en'') = Some (JStr ''Second'')"
    using official_last_write_wins [OF h1 h2 h3'] by (simp add: h3 title_def)
  moreover have "map xml_lang (filter (\<lambda>tag. ttype tag = ''official''
              \<and> slugify (xml_lang tag) ''_'' = slugify ''en'' ''_'') (titles entry_two_officials))
       = [''en'', ''en'']"
    by (simp add: entry_two_officials_def eval_simps)
  ultimately show ?thesis using h1 h3 k by blast
qed

text \<open>
  The claim as the specification states it (for every entry) fails when an official title
  of another language with the same slug follows: after the officials \<^verbatim>\<open>en\<close> "First" and
  \<^verbatim>\<open>en\<close> "Second", the official \<^verbatim>\<open>EN\<close> "Third" overwrites \<^verbatim>\<open>official_en\<close>; likewise
  \<^verbatim>\<open>x--jat\<close> after \<^verbatim>\<open>x-jat\<close>.
\<close>

theorem official_last_write_wins_counterexample:
  "normalize entry_case_clash =
     Inr [(''anime_id'', JInt 1), (''main'', JStr ''Foo''), (''official_en'', JStr ''Third''),
          (''short_en_1'', JStr ''B'')]
   \<and> last (officials_of entry_case_clash ''en'') = title ''official'' ''en'' ''Second''
   \<and> official_key ''en'' = ''official_en''
   \<and> normalize entry_hyphen_clash =
     Inr [(''anime_id'', JInt 1), (''main'', JStr ''Foo''), (''official_x_jat'', JStr ''Third'')]
   \<and> last (officials_of entry_hyphen_clash ''x-jat'') = title ''official'' ''x-jat'' ''Second''
   \<and> official_key ''x-jat'' = ''official_x_jat''"
  by (simp add: entry_case_clash_def entry_hyphen_clash_def eval_simps)

section \<open>A missing main title\<close>

text \<open>
  C6. Normalization of an entry (with an integer id) that has no title of type \<^verbatim>\<open>main\<close>
  fails: \<^verbatim>\<open>next\<close> raises StopIteration, the model's MissingMainTitleError. Nothing
  catches it, so it ends the whole run with a traceback and exit status 1: when the
  entries before it normalize and the sink accepts every batch, the sink has received
  only the full batches of 500 of the documents before the entry; the queue is not
  flushed, and the entries after it are never read (the result does not depend on them).
\<close>

theorem missing_main_title_is_fatal:
  assumes "healthy service"
    and "\<forall>documents. accepts service documents"
    and "map normalize before = map Inr docs"
    and "aid anime = Some anime_id"
    and "\<forall>tag\<in>set (titles anime). ttype tag \<noteq> ''main''"
  shows "normalize anime = Inl StopIteration
       \<and> (\<exists>sent batches queue.
            main args (Dom (before @ anime # after)) service = (Uncaught StopIteration, sent)
          \<and> exit_status (fst (main args (Dom (before @ anime # after)) service)) = 1
          \<and> add_documents_batches (calls sent) = add_documents_batches (calls service) @ batches
          \<and> concat batches @ queue = docs
          \<and> (\<forall>b\<in>set batches. length b = 500) \<and> length queue < 500)"
proof -
  let ?uid = "index_uid args"
  let ?index = "get_or_create_index (service\<lparr>calls := calls service @ [Health]\<rparr>) ?uid (index_name args)"
  have stop: "normalize anime = Inl StopIteration"
    using assms(4,5) by (rule normalize_no_main)
  have acc: "\<forall>documents. accepts ?index documents"
    using assms(2) by (simp add: get_or_create_index_def Let_def)
  have idx: "1 mod 500 = Suc (length ([]::document list)) mod 500" by simp
  from index_loop_batches [OF acc assms(3) _ idx, of ?uid] obtain batches queue where
    run: "index_loop ?uid 1 before ?index [] =
             (Returned, ?index\<lparr>calls := calls ?index @ map (AddDocuments ?uid) batches\<rparr>, queue)"
    and cat: "concat batches @ queue = docs"
    and full: "\<forall>b\<in>set batches. length b = 500"
    and short: "length queue < 500"
    by auto
  let ?sent = "?index\<lparr>calls := calls ?index @ map (AddDocuments ?uid) batches\<rparr>"
  have loop: "index_loop ?uid 1 (before @ anime # after) ?index [] = (Uncaught StopIteration, ?sent, queue)"
    by (subst index_loop_append [OF run]) (simp add: stop)
  have m: "main args (Dom (before @ anime # after)) service = (Uncaught StopIteration, ?sent)"
    using assms(1) loop by (simp add: main_def create_connection_def parse_and_index_def Let_def)
  have "add_documents_batches (calls ?sent) = add_documents_batches (calls service) @ batches"
    by (simp add: get_or_create_index_def Let_def add_documents_batches_append add_documents_batches_map)
  with stop m cat full short show ?thesis by auto
qed

theorem missing_main_title_is_fatal_witness:
  "healthy local_service
   \<and> (\<forall>documents. accepts local_service documents)
   \<and> map normalize [entry_main_only] = map Inr [[(''anime_id'', JInt 1), (''main'', JStr ''Foo'')]]
   \<and> aid entry_no_main = Some 2
   \<and> filter (\<lambda>tag. ttype tag = ''main'') (titles entry_no_main) = []
   \<and> normalize entry_no_main = Inl StopIteration
   \<and> main default_arguments (Dom ([entry_main_only] @ entry_no_main # [entry_main_only])) local_service
       = (Uncaught StopIteration,
          local_service\<lparr>calls := [Health, GetIndexes, GetIndex ''animes'',
                                    DeleteAllDocuments ''animes'']\<rparr>)
   \<and> exit_status (fst (main default_arguments
         (Dom ([entry_main_only] @ entry_no_main # [entry_main_only])) local_service)) = 1"
proof -
  have h1: "healthy local_service" by (simp add: local_service_def)
  have h2: "\<forall>documents. accepts local_service documents" by (simp add: local_service_def)
  have h3: "map normalize [entry_main_only]
              = map Inr [[(''anime_id'', JInt 1), (''main'', JStr ''Foo'')]]"
    by (simp add: normalize_entry_main_only)
  have h4: "aid entry_no_main = Some 2" by (simp add: entry_no_main_def)
  have h5: "\<forall>tag\<in>set (titles entry_no_main). ttype tag \<noteq> ''main''"
    by (simp add: entry_no_main_def title_def)
  have stop: "normalize entry_no_main = Inl StopIteration"
    by (simp add: entry_no_main_def title_def normalize_def)
  have run: "main default_arguments (Dom ([entry_main_only] @ entry_no_main # [entry_main_only])) local_service
       = (Uncaught StopIteration,
          local_service\<lparr>calls := [Health, GetIndexes, GetIndex ''animes'',
                                    DeleteAllDocuments ''animes'']\<rparr>)"
    by (simp add: main_def create_connection_def get_or_create_index_def parse_and_index_def
        default_arguments_def local_service_def Let_def normalize_entry_main_only stop)
  from missing_main_title_is_fatal
         [OF h1 h2 h3 h4 h5, of default_arguments "[entry_main_only]"]
  have "normalize entry_no_main = Inl StopIteration"
    and "exit_status (fst (main default_arguments
         (Dom ([entry_main_only] @ entry_no_main # [entry_main_only])) local_service)) = 1"
    by auto
  moreover have "filter (\<lambda>tag. ttype tag = ''main'') (titles entry_no_main) = []"
    by (simp add: entry_no_main_def title_def)
  ultimately show ?thesis using h1 h2 h3 h4 run by blast
qed

section \<open>Keys\<close>

text \<open>
  C7 (as amended). An official key never equals a short key; two official keys are equal
  if and only if the two languages slugify to the same string; two short keys are equal
  if and only if the occurrences are equal and the two languages slugify to the same
  string. So distinct (role, language, occurrence) triples have distinct keys except when
  they differ only in the language and the two languages have the same slug. The keys
  are injective on the languages that are their own slug with the separator \<^verbatim>\<open>-\<close>
  (lowercase ASCII letters and digits in groups joined by single hyphens, as
  \<^verbatim>\<open>en\<close>, \<^verbatim>\<open>x-jat\<close>, \<^verbatim>\<open>zh-hans\<close>).
\<close>

theorem slug_keys_injective_up_to_slug:
  "official_key l \<noteq> short_key l' k'
   \<and> (official_key l = official_key l' \<longleftrightarrow> slugify l ''_'' = slugify l' ''_'')
   \<and> (short_key l k = short_key l' k' \<longleftrightarrow> slugify l ''_'' = slugify l' ''_'' \<and> k = k')
   \<and> (slugify l ''-'' = l \<and> slugify l' ''-'' = l' \<and> slugify l ''_'' = slugify l' ''_'' \<longrightarrow> l = l')"
proof -
  have "slugify l ''-'' = l \<and> slugify l' ''-'' = l' \<and> slugify l ''_'' = slugify l' ''_'' \<longrightarrow> l = l'"
  proof
    assume a: "slugify l ''-'' = l \<and> slugify l' ''-'' = l' \<and> slugify l ''_'' = slugify l' ''_''"
    then have "slug_words l = slug_words l'" by (simp add: slugify_eq_iff)
    then have "slugify l ''-'' = slugify l' ''-''" by (simp add: slugify_def)
    from a have "l = slugify l ''-''" by simp
    also have "\<dots> = slugify l' ''-''" by fact
    also from a have "\<dots> = l'" by simp
    finally show "l = l'" .
  qed
  then show ?thesis
    by (simp add: official_key_not_short_key official_key_eq_iff short_key_eq_iff slugify_eq_iff)
qed

theorem slug_keys_injective_up_to_slug_witness:
  "slugify ''x-jat'' ''-'' = ''x-jat'' \<and> slugify ''zh-hans'' ''-'' = ''zh-hans''
   \<and> official_key ''x-jat'' = ''official_x_jat'' \<and> official_key ''zh-hans'' = ''official_zh_hans''
   \<and> short_key ''x-jat'' 1 = ''short_x_jat_1'' \<and> short_key ''x-jat'' 2 = ''short_x_jat_2''
   \<and> official_key ''x-jat'' \<noteq> short_key ''zh-hans'' 2
   \<and> official_key ''x-jat'' \<noteq> official_key ''zh-hans''
   \<and> short_key ''x-jat'' 1 \<noteq> short_key ''x-jat'' 2
   \<and> slugify ''x-jat'' ''_'' \<noteq> slugify ''zh-hans'' ''_''"
proof -
  have a: "slugify ''x-jat'' ''-'' = ''x-jat''" "slugify ''zh-hans'' ''-'' = ''zh-hans''"
    by (simp_all add: eval_simps)
  have b: "official_key ''x-jat'' = ''official_x_jat''" "official_key ''zh-hans'' = ''official_zh_hans''"
    "short_key ''x-jat'' 1 = ''short_x_jat_1''" "short_key ''x-jat'' 2 = ''short_x_jat_2''"
    by (simp_all add: eval_simps)
  have ne: "''x-jat'' \<noteq> ''zh-hans''" by simp
  from slug_keys_injective_up_to_slug [of "''x-jat''" "''zh-hans''" 2 1]
  have c: "official_key ''x-jat'' \<noteq> short_key ''zh-hans'' 2"
    and d: "slugify ''x-jat'' ''_'' \<noteq> slugify ''zh-hans'' ''_''"
    and e: "official_key ''x-jat'' \<noteq> official_key ''zh-hans''"
    using a ne by auto
  from slug_keys_injective_up_to_slug [of "''x-jat''" "''x-jat''" 2 1]
  have f: "short_key ''x-jat'' 1 \<noteq> short_key ''x-jat'' 2" by simp
  from a b c d e f show ?thesis by blast
qed

text \<open>
  The claim as the specification states it (injective over all languages of ASCII
  alphanumerics and hyphens) fails: letter case is folded, runs of hyphens collapse and
  leading hyphens are dropped.
\<close>

theorem slug_keys_collide_counterexample:
  "official_key ''EN'' = official_key ''en'' \<and> ''EN'' \<noteq> ''en''
   \<and> short_key ''zh-Hans'' 1 = short_key ''zh-hans'' 1 \<and> ''zh-Hans'' \<noteq> ''zh-hans''
   \<and> short_key ''a-b'' 1 = short_key ''a--b'' 1 \<and> ''a-b'' \<noteq> ''a--b''
   \<and> official_key ''-a'' = official_key ''a'' \<and> ''-a'' \<noteq> ''a''"
  by (simp add: eval_simps)

section \<open>The id and the titles\<close>

text \<open>
  C8. For every two entries with the same title list and integer ids, normalization fails
  for both with the same exception or succeeds for both, and then the two documents agree
  on every field other than the id field \<^verbatim>\<open>anime_id\<close>, which holds the id of each.
\<close>

theorem normalize_id_independent:
  assumes "titles a = titles b" and "aid a = Some i" and "aid b = Some j"
  shows "(normalize a = Inl e \<longleftrightarrow> normalize b = Inl e)
       \<and> (normalize a = Inr da \<and> normalize b = Inr db \<longrightarrow>
            (\<forall>K. K \<noteq> ''anime_id'' \<longrightarrow> map_of da K = map_of db K)
            \<and> map_of da ''anime_id'' = Some (JInt i) \<and> map_of db ''anime_id'' = Some (JInt j))"
proof (cases "List.find (\<lambda>tag. ttype tag = ''main'') (titles b)")
  case None
  with assms show ?thesis by (simp add: normalize_def)
next
  case (Some main_tag)
  show ?thesis
  proof (cases "first_child main_tag")
    case None
    with Some assms show ?thesis by (simp add: normalize_def)
  next
    case (Some main_name)
    let ?offs = "filter (\<lambda>tag. ttype tag = ''official'') (titles b)"
    let ?d1 = "[(''anime_id'', JInt i), (''main'', JStr main_name)]"
    let ?d2 = "[(''anime_id'', JInt j), (''main'', JStr main_name)]"
    have na: "normalize a = add_officials (titles b) ?offs ?d1"
      using assms \<open>List.find (\<lambda>tag. ttype tag = ''main'') (titles b) = Some main_tag\<close> Some
      by (simp add: normalize_def)
    have nb: "normalize b = add_officials (titles b) ?offs ?d2"
      using assms \<open>List.find (\<lambda>tag. ttype tag = ''main'') (titles b) = Some main_tag\<close> Some
      by (simp add: normalize_def)
    have start: "\<forall>K. K \<noteq> ''anime_id'' \<longrightarrow> map_of ?d1 K = map_of ?d2 K" by simp
    have agree: "(\<forall>e. normalize a = Inl e \<longleftrightarrow> normalize b = Inl e)
       \<and> (\<forall>r1 r2. normalize a = Inr r1 \<and> normalize b = Inr r2 \<longrightarrow>
            (\<forall>K. K \<noteq> ''anime_id'' \<longrightarrow> map_of r1 K = map_of r2 K))"
      unfolding na nb by (rule add_officials_agree [OF start])
    have ida: "normalize a = Inr da \<Longrightarrow> map_of da ''anime_id'' = Some (JInt i)"
      using add_officials_anime_id [of "titles b" ?offs ?d1 da] by (simp add: na)
    have idb: "normalize b = Inr db \<Longrightarrow> map_of db ''anime_id'' = Some (JInt j)"
      using add_officials_anime_id [of "titles b" ?offs ?d2 db] by (simp add: nb)
    from agree ida idb show ?thesis by blast
  qed
qed

theorem normalize_id_independent_witness:
  "titles entry_two_shorts = titles (entry_two_shorts\<lparr>aid := Some 42\<rparr>)
   \<and> aid entry_two_shorts = Some 1 \<and> aid (entry_two_shorts\<lparr>aid := Some 42\<rparr>) = Some 42
   \<and> normalize entry_two_shorts =
       Inr [(''anime_id'', JInt 1), (''main'', JStr ''Foo''), (''official_en'', JStr ''Official''),
            (''short_en_1'', JStr ''A''), (''short_en_2'', JStr ''B'')]
   \<and> normalize (entry_two_shorts\<lparr>aid := Some 42\<rparr>) =
       Inr [(''anime_id'', JInt 42), (''main'', JStr ''Foo''), (''official_en'', JStr ''Official''),
            (''short_en_1'', JStr ''A''), (''short_en_2'', JStr ''B'')]"
proof -
  let ?b = "entry_two_shorts\<lparr>aid := Some 42\<rparr>"
  let ?da = "[(''anime_id'', JInt 1), (''main'', JStr ''Foo''), (''official_en'', JStr ''Official''),
            (''short_en_1'', JStr ''A''), (''short_en_2'', JStr ''B'')]"
  let ?db = "[(''anime_id'', JInt 42), (''main'', JStr ''Foo''), (''official_en'', JStr ''Official''),
            (''short_en_1'', JStr ''A''), (''short_en_2'', JStr ''B'')]"
  have h1: "titles entry_two_shorts = titles ?b" by simp
  have h2: "aid entry_two_shorts = Some 1" by (simp add: entry_two_shorts_def)
  have h3: "aid ?b = Some 42" by simp
  have na: "normalize entry_two_shorts = Inr ?da"
    by (simp add: entry_two_shorts_def eval_simps)
  have nb: "normalize ?b = Inr ?db"
    by (simp add: entry_two_shorts_def eval_simps)
  from normalize_id_independent [OF h1 h2 h3, of AttributeError ?da ?db] h1 h2 h3 na nb
  show ?thesis by blast
qed

text \<open>
  C9 (as amended). For every entry with an integer id and one or more (so also two or
  more) titles of type \<^verbatim>\<open>main\<close>, in which the first main title, every official title and
  every short title whose language has an official title have a text, normalization does
  not fail, and the field \<^verbatim>\<open>main\<close> of the document is the text of the first main title
  in source order. The later main titles, and every other title, may be empty.
\<close>

theorem normalize_first_main:
  assumes "aid anime = Some anime_id"
    and "filter (\<lambda>tag. ttype tag = ''main'') (titles anime) = first_main # later_mains"
    and "first_child first_main = Some name"
    and "\<forall>tag\<in>set (titles anime). ttype tag = ''official'' \<longrightarrow> first_child tag \<noteq> None"
    and "\<forall>tag\<in>set (titles anime). ttype tag = ''short'' \<and> xml_lang tag \<in> official_langs anime
           \<longrightarrow> first_child tag \<noteq> None"
  shows "\<exists>data. normalize anime = Inr data \<and> map_of data ''main'' = Some (JStr name)"
proof -
  have found: "List.find (\<lambda>tag. ttype tag = ''main'') (titles anime) = Some first_main"
    using assms(2) by (rule find_filter_Cons)
  let ?offs = "filter (\<lambda>tag. ttype tag = ''official'') (titles anime)"
  let ?d0 = "[(''anime_id'', JInt anime_id), (''main'', JStr name)]"
  have "\<forall>tag\<in>set ?offs. first_child tag \<noteq> None
             \<and> (\<exists>names. short_names_list (titles anime) (xml_lang tag) = Inr names)"
  proof
    fix tag assume tag: "tag \<in> set ?offs"
    then have has_text: "first_child tag \<noteq> None" using assms(4) by simp
    from tag have "xml_lang tag \<in> official_langs anime"
      by (simp add: official_langs_set)
    then have "\<forall>t\<in>set (titles anime). ttype t = ''short'' \<and> xml_lang t = xml_lang tag
                 \<longrightarrow> first_child t \<noteq> None"
      using assms(5) by simp
    then have "\<exists>names. short_names_list (titles anime) (xml_lang tag) = Inr names"
      by (rule short_names_list_texts)
    with has_text show "first_child tag \<noteq> None
             \<and> (\<exists>names. short_names_list (titles anime) (xml_lang tag) = Inr names)" by simp
  qed
  from add_officials_succeeds [OF this] obtain data
    where run: "add_officials (titles anime) ?offs ?d0 = Inr data" by blast
  have "normalize anime = Inr data"
    using assms(1,3) found run by (simp add: normalize_def)
  moreover have "map_of data ''main'' = Some (JStr name)"
    using add_officials_main [OF run] by simp
  ultimately show ?thesis by blast
qed

theorem normalize_first_main_witness:
  "aid entry_two_mains_sparse = Some 3
   \<and> filter (\<lambda>tag. ttype tag = ''main'') (titles entry_two_mains_sparse)
       = title ''main'' ''x-jat'' ''First'' # [empty_title ''main'' ''x-jat'']
   \<and> first_child (title ''main'' ''x-jat'' ''First'') = Some ''First''
   \<and> map first_child (filter (\<lambda>tag. ttype tag = ''official'') (titles entry_two_mains_sparse))
       = [Some ''Official'']
   \<and> map first_child (filter (\<lambda>tag. ttype tag = ''short'' \<and> xml_lang tag \<in> official_langs entry_two_mains_sparse)
         (titles entry_two_mains_sparse))
       = [Some ''A'']
   \<and> map first_child (titles entry_two_mains_sparse)
       = [None, Some ''Official'', Some ''First'', None, Some ''A'', None]
   \<and> (\<exists>data. normalize entry_two_mains_sparse = Inr data
         \<and> map_of data ''main'' = Some (JStr ''First''))
   \<and> normalize entry_two_mains_sparse =
       Inr [(''anime_id'', JInt 3), (''main'', JStr ''First''), (''official_en'', JStr ''Official''),
            (''short_en_1'', JStr ''A'')]"
proof -
  have h1: "aid entry_two_mains_sparse = Some 3" by (simp add: entry_two_mains_sparse_def)
  have h2: "filter (\<lambda>tag. ttype tag = ''main'') (titles entry_two_mains_sparse)
       = title ''main'' ''x-jat'' ''First'' # [empty_title ''main'' ''x-jat'']"
    by (simp add: entry_two_mains_sparse_def title_def empty_title_def)
  have h3: "first_child (title ''main'' ''x-jat'' ''First'') = Some ''First''"
    by (simp add: title_def)
  have h4: "\<forall>tag\<in>set (titles entry_two_mains_sparse). ttype tag = ''official''
              \<longrightarrow> first_child tag \<noteq> None"
    by (simp add: entry_two_mains_sparse_def title_def empty_title_def)
  have h5: "\<forall>tag\<in>set (titles entry_two_mains_sparse).
              ttype tag = ''short'' \<and> xml_lang tag \<in> official_langs entry_two_mains_sparse
              \<longrightarrow> first_child tag \<noteq> None"
    by (simp add: entry_two_mains_sparse_def title_def empty_title_def official_langs_def)
  have c4: "map first_child (filter (\<lambda>tag. ttype tag = ''official'') (titles entry_two_mains_sparse))
       = [Some ''Official'']"
    by (simp add: entry_two_mains_sparse_def title_def empty_title_def)
  have c5: "map first_child (filter (\<lambda>tag. ttype tag = ''short'' \<and> xml_lang tag \<in> official_langs entry_two_mains_sparse)
         (titles entry_two_mains_sparse))
       = [Some ''A'']"
    by (simp add: entry_two_mains_sparse_def title_def empty_title_def official_langs_def)
  have c6: "map first_child (titles entry_two_mains_sparse)
       = [None, Some ''Official'', Some ''First'', None, Some ''A'', None]"
    by (simp add: entry_two_mains_sparse_def title_def empty_title_def)
  have n: "normalize entry_two_mains_sparse =
       Inr [(''anime_id'', JInt 3), (''main'', JStr ''First''), (''official_en'', JStr ''Official''),
            (''short_en_1'', JStr ''A'')]"
    by (simp add: entry_two_mains_sparse_def empty_title_def eval_simps)
  from normalize_first_main [OF h1 h2 h3 h4 h5] h1 h2 h3 c4 c5 c6 n show ?thesis by blast
qed

text \<open>
  The claim as the specification states it (normalization does not fail for every entry
  with two or more main titles) fails on entries with two main titles where an official
  title, a short title of a language with an official title, or the first main title has
  no child node: \<^verbatim>\<open>firstChild\<close> is \<^verbatim>\<open>None\<close> and \<^verbatim>\<open>.nodeValue\<close> raises AttributeError.
\<close>

theorem normalize_first_main_counterexample:
  "length (filter (\<lambda>tag. ttype tag = ''main'') (titles entry_official_no_text)) = 2
   \<and> normalize entry_official_no_text = Inl AttributeError
   \<and> length (filter (\<lambda>tag. ttype tag = ''main'') (titles entry_short_no_text)) = 2
   \<and> normalize entry_short_no_text = Inl AttributeError
   \<and> length (filter (\<lambda>tag. ttype tag = ''main'') (titles entry_first_main_no_text)) = 2
   \<and> normalize entry_first_main_no_text = Inl AttributeError"
  by (simp add: entry_official_no_text_def entry_short_no_text_def entry_first_main_no_text_def
      empty_title_def eval_simps)

text \<open>
  C10 (as amended). For every two entries that normalize, with the same short titles in
  the same order and the same set of languages with an official title, where no two
  distinct such languages slugify to the same string: the two documents agree on every
  short field. In particular repeating an official title of a language changes no short
  field.
\<close>

theorem short_fields_depend_on_official_langs:
  assumes "normalize a = Inr da" and "normalize b = Inr db"
    and "filter (\<lambda>tag. ttype tag = ''short'') (titles a) = filter (\<lambda>tag. ttype tag = ''short'') (titles b)"
    and "official_langs a = official_langs b"
    and "inj_on (\<lambda>l. slugify l ''_'') (official_langs a)"
  shows "map_of da (short_key language k) = map_of db (short_key language k)"
proof (cases "\<exists>lo\<in>official_langs a. slug_words lo = slug_words language")
  case True
  then obtain lo where lo: "lo \<in> official_langs a" and same: "slug_words lo = slug_words language"
    by blast
  have key: "short_key language k = short_key lo k"
    using same by (simp add: short_key_eq_iff)
  have free: "\<forall>x\<in>official_langs a. slug_words x = slug_words lo \<longrightarrow> x = lo"
  proof (intro ballI impI)
    fix x assume "x \<in> official_langs a" and "slug_words x = slug_words lo"
    then have "slugify x ''_'' = slugify lo ''_''" by (simp add: slugify_eq_iff)
    with \<open>x \<in> official_langs a\<close> lo assms(5) show "x = lo" by (simp add: inj_on_def)
  qed
  have free': "\<forall>x\<in>official_langs b. slug_words x = slug_words lo \<longrightarrow> x = lo"
    using free assms(4) by simp
  have shorts: "shorts_of a lo = shorts_of b lo"
    using assms(3) by (simp add: shorts_of_filter)
  show ?thesis
    unfolding key
    using normalize_short_lookup(1) [OF assms(1) free, of k]
      normalize_short_lookup(1) [OF assms(2) free', of k]
    by (simp add: shorts assms(4))
next
  case False
  then have free: "\<forall>x\<in>official_langs a. slug_words x = slug_words language \<longrightarrow> x = language"
    by blast
  then have free': "\<forall>x\<in>official_langs b. slug_words x = slug_words language \<longrightarrow> x = language"
    using assms(4) by simp
  from False have "language \<notin> official_langs a" by blast
  then show ?thesis
    using normalize_short_lookup(1) [OF assms(1) free, of k]
      normalize_short_lookup(1) [OF assms(2) free', of k]
    by (simp add: assms(4))
qed

theorem short_fields_depend_on_official_langs_witness:
  "normalize entry_two_shorts =
     Inr [(''anime_id'', JInt 1), (''main'', JStr ''Foo''), (''official_en'', JStr ''Official''),
          (''short_en_1'', JStr ''A''), (''short_en_2'', JStr ''B'')]
   \<and> normalize entry_official_repeated =
     Inr [(''anime_id'', JInt 1), (''main'', JStr ''Foo''), (''official_en'', JStr ''Again''),
          (''short_en_1'', JStr ''A''), (''short_en_2'', JStr ''B'')]
   \<and> filter (\<lambda>tag. ttype tag = ''short'') (titles entry_two_shorts)
       = filter (\<lambda>tag. ttype tag = ''short'') (titles entry_official_repeated)
   \<and> official_langs entry_two_shorts = official_langs entry_official_repeated
   \<and> inj_on (\<lambda>l. slugify l ''_'') (official_langs entry_two_shorts)
   \<and> map_of [(''anime_id'', JInt 1), (''main'', JStr ''Foo''), (''official_en'', JStr ''Official''),
          (''short_en_1'', JStr ''A''), (''short_en_2'', JStr ''B'')] (short_key ''en'' 2)
     = map_of [(''anime_id'', JInt 1), (''main'', JStr ''Foo''), (''official_en'', JStr ''Again''),
          (''short_en_1'', JStr ''A''), (''short_en_2'', JStr ''B'')] (short_key ''en'' 2)"
proof -
  have h1: "normalize entry_two_shorts =
     Inr [(''anime_id'', JInt 1), (''main'', JStr ''Foo''), (''official_en'', JStr ''Official''),
          (''short_en_1'', JStr ''A''), (''short_en_2'', JStr ''B'')]"
    by (simp add: entry_two_shorts_def eval_simps)
  have h2: "normalize entry_official_repeated =
     Inr [(''anime_id'', JInt 1), (''main'', JStr ''Foo''), (''official_en'', JStr ''Again''),
          (''short_en_1'', JStr ''A''), (''short_en_2'', JStr ''B'')]"
    by (simp add: entry_official_repeated_def eval_simps)
  have h3: "filter (\<lambda>tag. ttype tag = ''short'') (titles entry_two_shorts)
       = filter (\<lambda>tag. ttype tag = ''short'') (titles entry_official_repeated)"
    by (simp add: entry_two_shorts_def entry_official_repeated_def title_def)
  have h4: "official_langs entry_two_shorts = official_langs entry_official_repeated"
    by (simp add: entry_two_shorts_def entry_official_repeated_def title_def official_langs_def)
  have h5: "inj_on (\<lambda>l. slugify l ''_'') (official_langs entry_two_shorts)"
    by (simp add: entry_two_shorts_def title_def official_langs_def)
  from short_fields_depend_on_official_langs [OF h1 h2 h3 h4 h5, of "''en''" 2] h1 h2 h3 h4 h5
  show ?thesis by blast
qed

text \<open>
  The claim as the specification states it (for every entry) fails when two official
  languages have the same slug: with officials \<^verbatim>\<open>en\<close>, \<^verbatim>\<open>en\<close>, \<^verbatim>\<open>EN\<close> and the shorts "A" of
  \<^verbatim>\<open>en\<close> and "B" of \<^verbatim>\<open>EN\<close>, the field \<^verbatim>\<open>short_en_1\<close> is "B"; repeating the official \<^verbatim>\<open>en\<close>
  title once more at the end turns it into "A".
\<close>

theorem short_fields_depend_on_official_langs_counterexample:
  "normalize entry_case_clash =
     Inr [(''anime_id'', JInt 1), (''main'', JStr ''Foo''), (''official_en'', JStr ''Third''),
          (''short_en_1'', JStr ''B'')]
   \<and> normalize entry_case_clash_repeated =
     Inr [(''anime_id'', JInt 1), (''main'', JStr ''Foo''), (''official_en'', JStr ''Second''),
          (''short_en_1'', JStr ''A'')]"
  by (simp add: entry_case_clash_def entry_case_clash_repeated_def eval_simps)

end
